theory Spec2Isabelle
  imports Main "HOL-Library.Word"
begin

section \<open>The relational store\<close>

text \<open>
  The tables of \<^verbatim>\<open>initDatabase\<close> (folders, items, item_versions) as lists of rows, in
  table order. Every \<^verbatim>\<open>SERIAL\<close> key has its sequence, kept beside the rows: a sequence is not
  part of a transaction, so a rollback restores the rows and leaves the sequences advanced.
  Timestamps are natural numbers supplied by the caller (\<^verbatim>\<open>CURRENT_TIMESTAMP\<close>).
\<close>

type_synonym timestamp = nat

type_synonym byte = "8 word"

record folder_row =
  f_id :: nat
  f_name :: string
  f_parent_id :: "nat option"
  f_user_id :: nat
  f_created_at :: timestamp
  f_updated_at :: timestamp

record item_row =
  i_id :: nat
  i_name :: string
  i_type :: string
  i_encrypted_content :: "string option"
  i_file_path :: "string option"
  i_file_size :: nat
  i_language :: "string option"
  i_tags :: "string list option"
  i_folder_id :: nat
  i_user_id :: nat
  i_access_count :: nat
  i_last_accessed :: "timestamp option"
  i_is_pinned :: bool
  i_created_at :: timestamp
  i_updated_at :: timestamp

record version_row =
  v_id :: nat
  v_item_id :: nat
  v_encrypted_content :: "string option"
  v_version_number :: nat
  v_created_at :: timestamp

record db =
  folders :: "folder_row list"
  items :: "item_row list"
  item_versions :: "version_row list"
  folders_id_seq :: nat
  items_id_seq :: nat
  item_versions_id_seq :: nat

text \<open>
  The answer of a route: \<open>Fail code msg\<close> is \<^verbatim>\<open>res.status(code).json({ error: msg })\<close>,
  \<open>Done x\<close> is the successful \<^verbatim>\<open>res.json(x)\<close>.
\<close>

datatype 'a reply = Fail nat string | Done 'a

subsection \<open>Deletes and their cascades\<close>

text \<open>
  \<^verbatim>\<open>parent_id INTEGER REFERENCES folders(id) ON DELETE CASCADE\<close>: the rows that go with a set
  of deleted folder rows are found by following \<open>parent_id\<close> until nothing is added; no more
  rounds than there are rows can add something.
\<close>

definition fk_children :: "folder_row list \<Rightarrow> folder_row list \<Rightarrow> folder_row list" where
  "fk_children rows dead =
     [r \<leftarrow> rows. r \<notin> set dead \<and> (\<exists>p \<in> set dead. f_parent_id r = Some (f_id p))]"

fun cascade_folders :: "nat \<Rightarrow> folder_row list \<Rightarrow> folder_row list \<Rightarrow> folder_row list" where
  "cascade_folders 0 rows dead = dead"
| "cascade_folders (Suc n) rows dead = cascade_folders n rows (dead @ fk_children rows dead)"

text \<open>\<^verbatim>\<open>DELETE FROM items WHERE ...\<close>: the versions of a deleted item go with it.\<close>

definition delete_items_where :: "(item_row \<Rightarrow> bool) \<Rightarrow> db \<Rightarrow> db" where
  "delete_items_where P d =
     (let dead = [i \<leftarrow> items d. P i] in
      d\<lparr>items := [i \<leftarrow> items d. \<not> P i],
        item_versions := [v \<leftarrow> item_versions d. \<not> (\<exists>i \<in> set dead. v_item_id v = i_id i)]\<rparr>)"

text \<open>
  \<^verbatim>\<open>DELETE FROM folders WHERE ...\<close>: subfolders, the items of every deleted folder and the
  versions of those items go with it.
\<close>

definition delete_folders_where :: "(folder_row \<Rightarrow> bool) \<Rightarrow> db \<Rightarrow> db" where
  "delete_folders_where P d =
     (let dead = cascade_folders (length (folders d)) (folders d) [r \<leftarrow> folders d. P r] in
      delete_items_where (\<lambda>i. \<exists>f \<in> set dead. i_folder_id i = f_id f)
        (d\<lparr>folders := [r \<leftarrow> folders d. r \<notin> set dead]\<rparr>))"

section \<open>Folder routes (server/routes/folders.js)\<close>

text \<open>\<^verbatim>\<open>DELETE /folders/:id\<close> for the authenticated user \<open>uid\<close>.\<close>

definition delete_folder :: "nat \<Rightarrow> nat \<Rightarrow> db \<Rightarrow> string reply \<times> db" where
  "delete_folder uid fid d =
     (case [r \<leftarrow> folders d. f_id r = fid \<and> f_user_id r = uid] of
        [] \<Rightarrow> (Fail 404 ''Folder not found'', d)
      | r # _ \<Rightarrow>
          if f_name r = ''Root'' then (Fail 403 ''Cannot delete root folder'', d)
          else (Done ''Folder deleted successfully'',
                delete_folders_where (\<lambda>r. f_id r = fid \<and> f_user_id r = uid) d))"

text \<open>\<^verbatim>\<open>DELETE /items/:id\<close> (server/routes/items.js).\<close>

definition delete_item :: "nat \<Rightarrow> nat \<Rightarrow> db \<Rightarrow> string reply \<times> db" where
  "delete_item uid iid d =
     (case [i \<leftarrow> items d. i_id i = iid \<and> i_user_id i = uid] of
        [] \<Rightarrow> (Fail 404 ''Item not found'', d)
      | _ # _ \<Rightarrow> (Done ''Item deleted successfully'',
                  delete_items_where (\<lambda>i. i_id i = iid \<and> i_user_id i = uid) d))"

text \<open>A run of delete requests, each by some caller, applied one after the other.\<close>

datatype delete_request = DeleteFolder nat nat | DeleteItem nat nat

fun delete_step :: "delete_request \<Rightarrow> db \<Rightarrow> db" where
  "delete_step (DeleteFolder uid fid) d = snd (delete_folder uid fid d)"
| "delete_step (DeleteItem uid iid) d = snd (delete_item uid iid d)"

fun delete_requests :: "delete_request list \<Rightarrow> db \<Rightarrow> db" where
  "delete_requests [] d = d"
| "delete_requests (q # qs) d = delete_requests qs (delete_step q d)"


section \<open>Item routes (server/routes/items.js)\<close>

text \<open>
  JavaScript truthiness of a request field: a missing field, \<^verbatim>\<open>null\<close>, the empty
  string and the number 0 are falsy.
\<close>

fun truthy_str :: "string option \<Rightarrow> bool" where
  "truthy_str None = False"
| "truthy_str (Some s) = (s \<noteq> [])"

fun truthy_id :: "nat option \<Rightarrow> bool" where
  "truthy_id None = False"
| "truthy_id (Some n) = (n \<noteq> 0)"

definition falsy_str :: "string option \<Rightarrow> bool" where
  "falsy_str s = (\<not> truthy_str s)"

definition falsy_id :: "nat option \<Rightarrow> bool" where
  "falsy_id n = (\<not> truthy_id n)"

text \<open>\<^verbatim>\<open>COALESCE($n, column)\<close>: the driver sends a missing field as \<^verbatim>\<open>NULL\<close>.\<close>

fun coalesce :: "'a option \<Rightarrow> 'a \<Rightarrow> 'a" where
  "coalesce None old = old"
| "coalesce (Some v) old = v"

definition validTypes :: "string list" where
  "validTypes = [''text'', ''secret'', ''api_key'', ''code'', ''file'']"

text \<open>
  Storing a value in a \<^verbatim>\<open>VARCHAR(n)\<close> column: a longer value is an error, unless what
  exceeds \<open>n\<close> characters is all spaces, which are then cut off. \<open>None\<close> is the error.
\<close>

definition varchar :: "nat \<Rightarrow> string \<Rightarrow> string option" where
  "varchar n s =
     (if length s \<le> n then Some s
      else if drop n s = replicate (length s - n) CHR '' '' then Some (take n s)
      else None)"

fun varchar_null :: "nat \<Rightarrow> string option \<Rightarrow> string option option" where
  "varchar_null n None = Some None"
| "varchar_null n (Some s) = map_option Some (varchar n s)"

text \<open>
  PostgreSQL takes no text value with the character of code 0: a statement with such a
  parameter is refused before it runs. A \<^verbatim>\<open>SERIAL\<close> key is an \<^verbatim>\<open>INTEGER\<close>, and its sequence
  ends at the largest one: \<^verbatim>\<open>nextval\<close> is an error from there on.
\<close>

definition has_nul :: "string \<Rightarrow> bool" where
  "has_nul s = (CHR 0x00 \<in> set s)"

fun has_nul_null :: "string option \<Rightarrow> bool" where
  "has_nul_null None = False"
| "has_nul_null (Some s) = has_nul s"

definition max_integer :: nat where
  "max_integer = 2147483647"

text \<open>
  What the items table asks of a new row besides the lengths of \<^verbatim>\<open>name VARCHAR(255)\<close>,
  \<^verbatim>\<open>type VARCHAR(50)\<close> and \<^verbatim>\<open>language VARCHAR(50)\<close>: the \<^verbatim>\<open>CHECK\<close> on type and the foreign
  key to folders.
\<close>

definition item_row_ok :: "db \<Rightarrow> item_row \<Rightarrow> bool" where
  "item_row_ok d r =
     (i_type r \<in> set validTypes \<and> i_folder_id r \<in> set (map f_id (folders d)))"

text \<open>
  \<^verbatim>\<open>INSERT INTO items (name, type, encrypted_content, folder_id, user_id, language, tags)\<close>;
  the other columns take their defaults. \<open>Inl\<close> is the statement's error, with the store
  as the statement left it. A parameter with a character of code 0, a value too long for its
  column and a sequence at its end are errors before \<^verbatim>\<open>nextval\<close> has run, and leave the
  sequence where it was; the \<^verbatim>\<open>CHECK\<close> and the foreign key fail on the new row, with the
  sequence advanced.
\<close>

definition insert_item ::
  "timestamp \<Rightarrow> string \<Rightarrow> string \<Rightarrow> string option \<Rightarrow> nat \<Rightarrow> nat \<Rightarrow> string option \<Rightarrow>
   string list \<Rightarrow> db \<Rightarrow> db + (item_row \<times> db)" where
  "insert_item now name type content folderId uid language tags d =
     (if has_nul name \<or> has_nul type \<or> has_nul_null content \<or> has_nul_null language \<or>
         list_ex has_nul tags
      then Inl d
      else
        case (varchar 255 name, varchar 50 type, varchar_null 50 language) of
          (Some stored_name, Some stored_type, Some stored_language) \<Rightarrow>
            if max_integer \<le> items_id_seq d then Inl d
            else
              let d1 = d\<lparr>items_id_seq := items_id_seq d + 1\<rparr>;
                  row = \<lparr>i_id = items_id_seq d1, i_name = stored_name, i_type = stored_type,
                         i_encrypted_content = content, i_file_path = None, i_file_size = 0,
                         i_language = stored_language, i_tags = Some tags,
                         i_folder_id = folderId, i_user_id = uid, i_access_count = 0,
                         i_last_accessed = None, i_is_pinned = False, i_created_at = now,
                         i_updated_at = now\<rparr>
              in if item_row_ok d1 row then Inr (row, d1\<lparr>items := items d1 @ [row]\<rparr>)
                 else Inl d1
        | _ \<Rightarrow> Inl d)"

text \<open>
  \<^verbatim>\<open>INSERT INTO item_versions (item_id, encrypted_content, version_number)\<close>. \<open>Inl\<close> is the
  statement's error, with the store as the statement left it: a content with a character of
  code 0, a version number that is no \<^verbatim>\<open>INTEGER\<close> and a sequence at its end before \<^verbatim>\<open>nextval\<close>
  has run, the foreign key to items after it.
\<close>

definition insert_version ::
  "timestamp \<Rightarrow> nat \<Rightarrow> string option \<Rightarrow> nat \<Rightarrow> db \<Rightarrow> db + db" where
  "insert_version now itemId content versionNumber d =
     (if has_nul_null content \<or> max_integer < versionNumber \<or>
         max_integer \<le> item_versions_id_seq d
      then Inl d
      else
        let d1 = d\<lparr>item_versions_id_seq := item_versions_id_seq d + 1\<rparr> in
        if itemId \<in> set (map i_id (items d1))
        then Inr (d1\<lparr>item_versions := item_versions d1 @
                    [\<lparr>v_id = item_versions_id_seq d1, v_item_id = itemId,
                      v_encrypted_content = content, v_version_number = versionNumber,
                      v_created_at = now\<rparr>]\<rparr>)
        else Inl d1)"

record create_request =
  cr_name :: "string option"
  cr_type :: "string option"
  cr_encryptedContent :: "string option"
  cr_folderId :: "nat option"
  cr_language :: "string option"
  cr_tags :: "string list option"

text \<open>\<^verbatim>\<open>POST /items\<close>: the item and its version 1.\<close>

definition create_item :: "nat \<Rightarrow> timestamp \<Rightarrow> create_request \<Rightarrow> db \<Rightarrow> item_row reply \<times> db" where
  "create_item uid now req d =
     (if falsy_str (cr_name req) \<or> falsy_str (cr_type req) \<or> falsy_id (cr_folderId req)
      then (Fail 400 ''Name, type, and folder ID are required'', d)
      else
        let name = coalesce (cr_name req) []; type = coalesce (cr_type req) [];
            folderId = coalesce (cr_folderId req) 0
        in if type \<notin> set validTypes then (Fail 400 ''Invalid item type'', d)
           else if [r \<leftarrow> folders d. f_id r = folderId \<and> f_user_id r = uid] = []
           then (Fail 404 ''Folder not found'', d)
           else
             (case insert_item now name type (cr_encryptedContent req) folderId uid
                     (cr_language req) (coalesce (cr_tags req) []) d of
                Inl d1 \<Rightarrow> (Fail 500 ''Failed to create item'', d1)
              | Inr (row, d1) \<Rightarrow>
                  (case insert_version now (i_id row) (cr_encryptedContent req) 1 d1 of
                     Inl d2 \<Rightarrow> (Fail 500 ''Failed to create item'', d2)
                   | Inr d2 \<Rightarrow> (Done row, d2))))"

record update_request =
  ur_name :: "string option"
  ur_encryptedContent :: "string option"
  ur_folderId :: "nat option"
  ur_language :: "string option"
  ur_tags :: "string list option"

text \<open>The \<^verbatim>\<open>SET\<close> list of the update, on one row.\<close>

definition set_columns :: "timestamp \<Rightarrow> update_request \<Rightarrow> item_row \<Rightarrow> item_row" where
  "set_columns now req r =
     r\<lparr>i_name := coalesce (ur_name req) (i_name r),
       i_encrypted_content :=
         (case ur_encryptedContent req of None \<Rightarrow> i_encrypted_content r | Some c \<Rightarrow> Some c),
       i_folder_id := coalesce (ur_folderId req) (i_folder_id r),
       i_language := (case ur_language req of None \<Rightarrow> i_language r | Some l \<Rightarrow> Some l),
       i_tags := (case ur_tags req of None \<Rightarrow> i_tags r | Some t \<Rightarrow> Some t),
       i_updated_at := now\<rparr>"

text \<open>
  \<^verbatim>\<open>UPDATE items SET ... WHERE id = $6 AND user_id = $7 RETURNING *\<close>: \<open>None\<close> is the
  statement's error, when a supplied text has a character of code 0, when a supplied name or
  language does not fit its column or when a new row breaks a constraint of the table; else
  the updated rows and the new store. With no row to update no column is evaluated.
\<close>

definition update_items ::
  "timestamp \<Rightarrow> update_request \<Rightarrow> nat \<Rightarrow> nat \<Rightarrow> db \<Rightarrow> (item_row list \<times> db) option" where
  "update_items now req iid uid d =
     (let hit = (\<lambda>r. i_id r = iid \<and> i_user_id r = uid) in
      if has_nul_null (ur_name req) \<or> has_nul_null (ur_encryptedContent req) \<or>
         has_nul_null (ur_language req) \<or> list_ex has_nul (coalesce (ur_tags req) [])
      then None
      else if [r \<leftarrow> items d. hit r] = [] then Some ([], d)
      else
        case (varchar_null 255 (ur_name req), varchar_null 50 (ur_language req)) of
          (Some stored_name, Some stored_language) \<Rightarrow>
            let stored = req\<lparr>ur_name := stored_name, ur_language := stored_language\<rparr>;
                rows = map (set_columns now stored) [r \<leftarrow> items d. hit r]
            in if list_all (item_row_ok d) rows
               then Some (rows, d\<lparr>items := map (\<lambda>r. if hit r then set_columns now stored r else r)
                                            (items d)\<rparr>)
               else None
        | _ \<Rightarrow> None)"

text \<open>\<^verbatim>\<open>SELECT MAX(version_number)\<close> with \<^verbatim>\<open>|| 0\<close> for no rows.\<close>

definition max_version :: "db \<Rightarrow> nat \<Rightarrow> nat" where
  "max_version d iid = fold max [v_version_number v. v \<leftarrow> item_versions d, v_item_id v = iid] 0"

text \<open>\<^verbatim>\<open>PUT /items/:id\<close>.\<close>

definition update_item ::
  "nat \<Rightarrow> timestamp \<Rightarrow> nat \<Rightarrow> update_request \<Rightarrow> db \<Rightarrow> item_row option reply \<times> db" where
  "update_item uid now iid req d =
     (case [i \<leftarrow> items d. i_id i = iid \<and> i_user_id i = uid] of
        [] \<Rightarrow> (Fail 404 ''Item not found'', d)
      | itemCheck # _ \<Rightarrow>
          if truthy_id (ur_folderId req) \<and>
             [r \<leftarrow> folders d. Some (f_id r) = ur_folderId req \<and> f_user_id r = uid] = []
          then (Fail 404 ''Target folder not found'', d)
          else
            let nextVersion = max_version d iid + 1 in
            (case update_items now req iid uid d of
               None \<Rightarrow> (Fail 500 ''Failed to update item'', d)
             | Some (rows, d1) \<Rightarrow>
                 if truthy_str (ur_encryptedContent req) \<and>
                    ur_encryptedContent req \<noteq> i_encrypted_content itemCheck
                 then
                   (case insert_version now iid (ur_encryptedContent req) nextVersion d1 of
                      Inl d2 \<Rightarrow> (Fail 500 ''Failed to update item'', d2)
                    | Inr d2 \<Rightarrow> (Done (case rows of [] \<Rightarrow> None | r # _ \<Rightarrow> Some r), d2))
                 else (Done (case rows of [] \<Rightarrow> None | r # _ \<Rightarrow> Some r), d1)))"

text \<open>
  \<^verbatim>\<open>GET /items/:id/versions\<close>: the versions of the item, \<^verbatim>\<open>ORDER BY version_number DESC\<close>.
\<close>

definition list_versions :: "nat \<Rightarrow> nat \<Rightarrow> db \<Rightarrow> version_row list reply" where
  "list_versions uid iid d =
     (if [i \<leftarrow> items d. i_id i = iid \<and> i_user_id i = uid] = [] then Fail 404 ''Item not found''
      else Done (rev (sort_key v_version_number [v \<leftarrow> item_versions d. v_item_id v = iid])))"

section \<open>The content cipher of the client (EncryptionService)\<close>

text \<open>
  The strings of the class are JavaScript strings: sequences of 16-bit code units.
\<close>

type_synonym jsstring = "16 word list"

text \<open>
  CryptoJS is a library the class calls; it is a parameter here.
  \<open>aes_encrypt text key\<close> is \<^verbatim>\<open>CryptoJS.AES.encrypt(text, key).toString()\<close> and
  \<open>aes_decrypt encryptedText key\<close> is
  \<^verbatim>\<open>CryptoJS.AES.decrypt(encryptedText, key).toString(CryptoJS.enc.Utf8)\<close>; \<open>None\<close> is a
  throw of the library. Every \<^verbatim>\<open>catch\<close> of the class rethrows one fixed error.
\<close>

datatype cipher_error = FailedToEncrypt | FailedToDecrypt

definition encrypt ::
  "(jsstring \<Rightarrow> jsstring \<Rightarrow> jsstring option) \<Rightarrow> jsstring \<Rightarrow> jsstring \<Rightarrow>
   cipher_error + jsstring" where
  "encrypt aes_encrypt encryptionKey text =
     (case aes_encrypt text encryptionKey of
        None \<Rightarrow> Inl FailedToEncrypt
      | Some encrypted \<Rightarrow> Inr encrypted)"

definition decrypt ::
  "(jsstring \<Rightarrow> jsstring \<Rightarrow> jsstring option) \<Rightarrow> jsstring \<Rightarrow> jsstring \<Rightarrow>
   cipher_error + jsstring" where
  "decrypt aes_decrypt encryptionKey encryptedText =
     (case aes_decrypt encryptedText encryptionKey of
        None \<Rightarrow> Inl FailedToDecrypt
      | Some plaintext \<Rightarrow> if plaintext = [] then Inl FailedToDecrypt else Inr plaintext)"

subsection \<open>The library as the class calls it\<close>

text \<open>
  What CryptoJS does with the two calls, as its own code has it. A string message and a
  string passphrase are first turned into bytes by \<^verbatim>\<open>Utf8.parse\<close>, which is
  \<^verbatim>\<open>unescape(encodeURIComponent(_))\<close>: the UTF-8 bytes of the string, and a throw when a
  surrogate code unit stands without its partner. The result of a decryption is turned into
  a string by \<^verbatim>\<open>Utf8.stringify\<close>, which is \<^verbatim>\<open>decodeURIComponent(escape(_))\<close>: the string
  that the bytes encode, and a throw (\<^verbatim>\<open>Malformed UTF-8 data\<close>) when they are not the UTF-8
  encoding of code points.
\<close>

definition utf8_of_code_point :: "nat \<Rightarrow> byte list" where
  "utf8_of_code_point c =
     (if c < 0x80 then [of_nat c]
      else if c < 0x800 then [of_nat (0xC0 + c div 64), of_nat (0x80 + c mod 64)]
      else if c < 0x10000
      then [of_nat (0xE0 + c div 4096), of_nat (0x80 + c div 64 mod 64), of_nat (0x80 + c mod 64)]
      else [of_nat (0xF0 + c div 262144), of_nat (0x80 + c div 4096 mod 64),
            of_nat (0x80 + c div 64 mod 64), of_nat (0x80 + c mod 64)])"

definition code_point_at :: "16 word \<Rightarrow> jsstring \<Rightarrow> (nat \<times> jsstring) option" where
  "code_point_at u us =
     (let c = unat u in
      if c < 0xD800 \<or> 0xE000 \<le> c then Some (c, us)
      else if c < 0xDC00 then
        (case us of
           [] \<Rightarrow> None
         | v # rest \<Rightarrow>
             if 0xDC00 \<le> unat v \<and> unat v < 0xE000
             then Some (0x10000 + (c - 0xD800) * 1024 + (unat v - 0xDC00), rest)
             else None)
      else None)"

lemma code_point_at_shorter:
  "code_point_at u us = Some (c, rest) \<Longrightarrow> length rest \<le> length us"
  by (auto simp: code_point_at_def Let_def split: if_splits list.splits)

function utf8_parse :: "jsstring \<Rightarrow> byte list option" where
  "utf8_parse [] = Some []"
| "utf8_parse (u # us) =
     (case code_point_at u us of
        None \<Rightarrow> None
      | Some (c, rest) \<Rightarrow> map_option ((@) (utf8_of_code_point c)) (utf8_parse rest))"
  by pat_completeness auto
termination
  by (relation "measure length") (auto dest: code_point_at_shorter)

definition continuation :: "byte \<Rightarrow> bool" where
  "continuation b = (0x80 \<le> unat b \<and> unat b < 0xC0)"

definition utf16_of_code_point :: "nat \<Rightarrow> jsstring" where
  "utf16_of_code_point c =
     (if c < 0x10000 then [of_nat c]
      else [of_nat (0xD800 + (c - 0x10000) div 1024), of_nat (0xDC00 + (c - 0x10000) mod 1024)])"

definition decode_at :: "byte \<Rightarrow> byte list \<Rightarrow> (nat \<times> byte list) option" where
  "decode_at b bs =
     (let x = unat b in
      if x < 0x80 then Some (x, bs)
      else if x < 0xC0 then None
      else if x < 0xE0 then
        (case bs of
           b1 # rest \<Rightarrow>
             let c = (x - 0xC0) * 64 + (unat b1 - 0x80) in
             if continuation b1 \<and> 0x80 \<le> c then Some (c, rest) else None
         | _ \<Rightarrow> None)
      else if x < 0xF0 then
        (case bs of
           b1 # b2 # rest \<Rightarrow>
             let c = (x - 0xE0) * 4096 + (unat b1 - 0x80) * 64 + (unat b2 - 0x80) in
             if continuation b1 \<and> continuation b2 \<and> 0x800 \<le> c \<and> (c < 0xD800 \<or> 0xE000 \<le> c)
             then Some (c, rest) else None
         | _ \<Rightarrow> None)
      else if x < 0xF8 then
        (case bs of
           b1 # b2 # b3 # rest \<Rightarrow>
             let c = (x - 0xF0) * 262144 + (unat b1 - 0x80) * 4096 + (unat b2 - 0x80) * 64 +
                     (unat b3 - 0x80) in
             if continuation b1 \<and> continuation b2 \<and> continuation b3 \<and>
                0x10000 \<le> c \<and> c < 0x110000
             then Some (c, rest) else None
         | _ \<Rightarrow> None)
      else None)"

lemma decode_at_shorter:
  "decode_at b bs = Some (c, rest) \<Longrightarrow> length rest \<le> length bs"
  by (auto simp: decode_at_def Let_def split: if_splits list.splits)

function utf8_stringify :: "byte list \<Rightarrow> jsstring option" where
  "utf8_stringify [] = Some []"
| "utf8_stringify (b # bs) =
     (case decode_at b bs of
        None \<Rightarrow> None
      | Some (c, rest) \<Rightarrow> map_option ((@) (utf16_of_code_point c)) (utf8_stringify rest))"
  by pat_completeness auto
termination
  by (relation "measure length") (auto dest: decode_at_shorter)

text \<open>A string is well formed when every surrogate code unit is part of a pair.\<close>

fun well_formed :: "jsstring \<Rightarrow> bool" where
  "well_formed [] = True"
| "well_formed [u] = (unat u < 0xD800 \<or> 0xE000 \<le> unat u)"
| "well_formed (u # v # rest) =
     (if unat u < 0xD800 \<or> 0xE000 \<le> unat u then well_formed (v # rest)
      else unat u < 0xDC00 \<and> 0xDC00 \<le> unat v \<and> unat v < 0xE000 \<and> well_formed rest)"

text \<open>
  Between the bytes and the printed ciphertext lie the key derivation from the passphrase
  and a salt, AES, and the OpenSSL format in Base64; they stay a parameter: \<open>seal key salt
  bytes\<close> is the printed ciphertext of \<open>bytes\<close> under the passphrase bytes \<open>key\<close> and the random
  \<open>salt\<close> of 8 bytes, and \<open>unseal key ciphertext\<close> are the bytes that decryption under \<open>key\<close>
  gets out of a printed ciphertext (\<open>None\<close> is a throw).
\<close>

record cipher_core =
  seal :: "byte list \<Rightarrow> byte list \<Rightarrow> byte list \<Rightarrow> jsstring"
  unseal :: "byte list \<Rightarrow> jsstring \<Rightarrow> byte list option"

definition cryptojs_encrypt ::
  "cipher_core \<Rightarrow> byte list \<Rightarrow> jsstring \<Rightarrow> jsstring \<Rightarrow> jsstring option" where
  "cryptojs_encrypt core salt message passphrase =
     (case utf8_parse passphrase of
        None \<Rightarrow> None
      | Some key \<Rightarrow>
          (case utf8_parse message of
             None \<Rightarrow> None
           | Some bytes \<Rightarrow> Some (seal core key salt bytes)))"

definition cryptojs_decrypt :: "cipher_core \<Rightarrow> jsstring \<Rightarrow> jsstring \<Rightarrow> jsstring option" where
  "cryptojs_decrypt core ciphertext passphrase =
     (case utf8_parse passphrase of
        None \<Rightarrow> None
      | Some key \<Rightarrow>
          (case unseal core key ciphertext of
             None \<Rightarrow> None
           | Some bytes \<Rightarrow> utf8_stringify bytes))"

section \<open>Backup routes (server/routes/backup.js)\<close>

record req_user =
  u_id :: nat
  u_email :: string
  u_encryptionKey :: string

text \<open>The snapshot that export serialises.\<close>

record backup_data =
  bd_version :: string
  bd_timestamp :: timestamp
  bd_user_email :: string
  bd_folders :: "folder_row list"
  bd_items :: "item_row list"

text \<open>The envelope: \<^verbatim>\<open>{ version, encrypted, data }\<close>.\<close>

record backup_bundle =
  b_version :: string
  b_encrypted :: bool
  b_data :: string

text \<open>
  What import reads of a decrypted payload: of a folder its id, name and parent_id, of an item
  its name, type, encrypted_content, folder_id, language and tags. A collection that is
  missing (or falsy) is \<open>None\<close>.
\<close>

record folder_entry =
  fe_id :: nat
  fe_name :: string
  fe_parent_id :: "nat option"

record item_entry =
  ie_name :: string
  ie_type :: string
  ie_encrypted_content :: "string option"
  ie_folder_id :: nat
  ie_language :: "string option"
  ie_tags :: "string list option"

record backup_payload =
  bp_folders :: "folder_entry list option"
  bp_items :: "item_entry list option"

text \<open>
  The Node runtime the routes call, as parameters:
  \<^item> \<open>randomBytes n\<close> is \<^verbatim>\<open>crypto.randomBytes(n)\<close>;
  \<^item> \<open>gcm_encrypt key text\<close> is the cipher of
    \<^verbatim>\<open>crypto.createCipher('aes-256-gcm', key)\<close> run on \<open>text\<close>: the ciphertext of
    \<^verbatim>\<open>update\<close> and \<^verbatim>\<open>final\<close>, and the tag of \<^verbatim>\<open>getAuthTag\<close>;
  \<^item> \<open>gcm_decrypt key authTag encrypted\<close> is the decipher of
    \<^verbatim>\<open>crypto.createDecipher('aes-256-gcm', key)\<close> after \<^verbatim>\<open>setAuthTag(authTag)\<close>, run on
    \<open>encrypted\<close>;
  \<^item> \<open>base64\<close> and \<open>unbase64\<close> are \<^verbatim>\<open>toString('base64')\<close> and
    \<^verbatim>\<open>Buffer.from(_, 'base64')\<close>;
  \<^item> \<open>stringify\<close> is \<^verbatim>\<open>JSON.stringify(_, null, 2)\<close> read as UTF-8 and \<open>parse\<close> is
    \<^verbatim>\<open>JSON.parse\<close> of the UTF-8 text.
  \<open>None\<close> is a throw. Neither \<^verbatim>\<open>createCipher\<close> nor \<^verbatim>\<open>createDecipher\<close> takes an
  initialisation vector: both derive it from the key.
\<close>

record runtime =
  randomBytes :: "nat \<Rightarrow> byte list"
  gcm_encrypt :: "string \<Rightarrow> byte list \<Rightarrow> (byte list \<times> byte list) option"
  gcm_decrypt :: "string \<Rightarrow> byte list \<Rightarrow> byte list \<Rightarrow> byte list option"
  base64 :: "byte list \<Rightarrow> string"
  unbase64 :: "string \<Rightarrow> byte list"
  stringify :: "backup_data \<Rightarrow> byte list"
  parse :: "byte list \<Rightarrow> backup_payload option"

subsection \<open>Export\<close>

definition mask_file_path :: "item_row \<Rightarrow> item_row" where
  "mask_file_path item =
     item\<lparr>i_file_path :=
       (if i_type item = ''file'' then Some ''[FILE_DATA_NOT_INCLUDED]'' else i_file_path item)\<rparr>"

definition export_data :: "req_user \<Rightarrow> timestamp \<Rightarrow> db \<Rightarrow> backup_data" where
  "export_data user now d =
     \<lparr>bd_version = ''1.0.0'', bd_timestamp = now, bd_user_email = u_email user,
      bd_folders = sort_key f_id [r \<leftarrow> folders d. f_user_id r = u_id user],
      bd_items = map mask_file_path (sort_key i_id [i \<leftarrow> items d. i_user_id i = u_id user])\<rparr>"

text \<open>\<^verbatim>\<open>GET /export\<close>.\<close>

definition export_bundle :: "runtime \<Rightarrow> req_user \<Rightarrow> timestamp \<Rightarrow> db \<Rightarrow> backup_bundle reply" where
  "export_bundle rt user now d =
     (let backupJson = stringify rt (export_data user now d);
          iv = randomBytes rt 16
      in case gcm_encrypt rt (u_encryptionKey user) backupJson of
           None \<Rightarrow> Fail 500 ''Failed to export data''
         | Some (encrypted, authTag) \<Rightarrow>
             Done \<lparr>b_version = ''1.0.0'', b_encrypted = True,
                   b_data = base64 rt (iv @ authTag @ encrypted)\<rparr>)"

subsection \<open>Import\<close>

text \<open>
  The decryption of import: the first 16 bytes are sliced off as \<open>iv\<close> and not used again.
\<close>

definition decrypt_bundle :: "runtime \<Rightarrow> string \<Rightarrow> byte list \<Rightarrow> byte list option" where
  "decrypt_bundle rt key encryptedBuffer =
     (let iv = take 16 encryptedBuffer;
          authTag = take 16 (drop 16 encryptedBuffer);
          encrypted = drop 32 encryptedBuffer
      in gcm_decrypt rt key authTag encrypted)"

text \<open>
  \<^verbatim>\<open>INSERT INTO folders (name, parent_id, user_id) ... ON CONFLICT DO NOTHING RETURNING id\<close>.
  The table has \<^verbatim>\<open>name VARCHAR(255)\<close>, \<^verbatim>\<open>UNIQUE(name, parent_id, user_id)\<close>, under which
  rows with a \<^verbatim>\<open>NULL\<close> parent never conflict, and the foreign key of \<open>parent_id\<close>. \<open>Inl\<close> is
  the statement's error, with the store as the statement left it; \<open>Inr (None, _)\<close> is a
  conflict, with no row returned. A name with a character of code 0, a name too long for the
  column and a sequence at its end are errors before \<^verbatim>\<open>nextval\<close> has run; a conflict and a
  broken foreign key come after it.
\<close>

definition insert_folder ::
  "timestamp \<Rightarrow> string \<Rightarrow> nat option \<Rightarrow> nat \<Rightarrow> db \<Rightarrow> db + (nat option \<times> db)" where
  "insert_folder now name parentId uid d =
     (if has_nul name then Inl d
      else
        case varchar 255 name of
          None \<Rightarrow> Inl d
        | Some stored_name \<Rightarrow>
            if max_integer \<le> folders_id_seq d then Inl d
            else
              let d1 = d\<lparr>folders_id_seq := folders_id_seq d + 1\<rparr>;
                  row = \<lparr>f_id = folders_id_seq d1, f_name = stored_name,
                         f_parent_id = parentId, f_user_id = uid, f_created_at = now,
                         f_updated_at = now\<rparr>
              in if parentId \<noteq> None \<and>
                    [r \<leftarrow> folders d. f_name r = stored_name \<and> f_parent_id r = parentId \<and>
                                       f_user_id r = uid] \<noteq> []
                 then Inr (None, d1)
                 else if (case parentId of None \<Rightarrow> False
                          | Some p \<Rightarrow> p \<notin> set (map f_id (folders d)))
                 then Inl d1
                 else Inr (Some (f_id row), d1\<lparr>folders := folders d1 @ [row]\<rparr>))"

text \<open>
  One round of the folder loop. \<^verbatim>\<open>folderMapping.get\<close> of an unknown id is
  \<^verbatim>\<open>undefined\<close>, which the driver sends as \<^verbatim>\<open>NULL\<close>, as it does \<^verbatim>\<open>null\<close>.
\<close>

definition existingRoot :: "nat \<Rightarrow> db \<Rightarrow> folder_row list" where
  "existingRoot uid d =
     [r \<leftarrow> folders d. f_name r = ''Root'' \<and> f_parent_id r = None \<and> f_user_id r = uid]"

definition insert_mapped_folder ::
  "timestamp \<Rightarrow> nat \<Rightarrow> folder_entry \<Rightarrow> db \<Rightarrow> (nat \<rightharpoonup> nat) \<Rightarrow> db + (db \<times> (nat \<rightharpoonup> nat))" where
  "insert_mapped_folder now uid folder d folderMapping =
     (let parentId = (case fe_parent_id folder of
                        None \<Rightarrow> None
                      | Some p \<Rightarrow> if p = 0 then None else folderMapping p)
      in case insert_folder now (fe_name folder) parentId uid d of
           Inl d1 \<Rightarrow> Inl d1
         | Inr (None, d1) \<Rightarrow> Inr (d1, folderMapping)
         | Inr (Some new_id, d1) \<Rightarrow> Inr (d1, folderMapping(fe_id folder \<mapsto> new_id)))"

definition import_folder ::
  "timestamp \<Rightarrow> nat \<Rightarrow> bool \<Rightarrow> folder_entry \<Rightarrow> db \<Rightarrow> (nat \<rightharpoonup> nat) \<Rightarrow> db + (db \<times> (nat \<rightharpoonup> nat))" where
  "import_folder now uid clearExisting folder d folderMapping =
     (if fe_name folder = ''Root'' \<and> \<not> clearExisting then
        (case existingRoot uid d of
           r # _ \<Rightarrow> Inr (d, folderMapping(fe_id folder \<mapsto> f_id r))
         | [] \<Rightarrow> insert_mapped_folder now uid folder d folderMapping)
      else insert_mapped_folder now uid folder d folderMapping)"

fun import_folders ::
  "timestamp \<Rightarrow> nat \<Rightarrow> bool \<Rightarrow> folder_entry list \<Rightarrow> db \<Rightarrow> (nat \<rightharpoonup> nat) \<Rightarrow> db + (db \<times> (nat \<rightharpoonup> nat))" where
  "import_folders now uid clearExisting [] d folderMapping = Inr (d, folderMapping)"
| "import_folders now uid clearExisting (folder # rest) d folderMapping =
     (case import_folder now uid clearExisting folder d folderMapping of
        Inl d1 \<Rightarrow> Inl d1
      | Inr (d1, folderMapping1) \<Rightarrow> import_folders now uid clearExisting rest d1 folderMapping1)"

text \<open>The item loop, with its counter \<open>importedItems\<close>.\<close>

fun import_items ::
  "timestamp \<Rightarrow> nat \<Rightarrow> (nat \<rightharpoonup> nat) \<Rightarrow> item_entry list \<Rightarrow> db \<Rightarrow> nat \<Rightarrow> db + (db \<times> nat)" where
  "import_items now uid folderMapping [] d importedItems = Inr (d, importedItems)"
| "import_items now uid folderMapping (item # rest) d importedItems =
     (if ie_type item = ''file'' then import_items now uid folderMapping rest d importedItems
      else
        (case folderMapping (ie_folder_id item) of
           None \<Rightarrow> import_items now uid folderMapping rest d importedItems
         | Some newFolderId \<Rightarrow>
             if newFolderId = 0 then import_items now uid folderMapping rest d importedItems
             else
               (case insert_item now (ie_name item) (ie_type item) (ie_encrypted_content item)
                       newFolderId uid (ie_language item) (coalesce (ie_tags item) []) d of
                  Inl d1 \<Rightarrow> Inl d1
                | Inr (_, d1) \<Rightarrow>
                    import_items now uid folderMapping rest d1 (importedItems + 1))))"

text \<open>
  The statements between \<^verbatim>\<open>BEGIN\<close> and \<^verbatim>\<open>COMMIT\<close>. \<open>Inl\<close> is an exception, with the
  store as the failed statement left it; \<open>Inr\<close> carries the counts of the answer.
\<close>

definition import_transaction ::
  "timestamp \<Rightarrow> nat \<Rightarrow> bool \<Rightarrow> folder_entry list \<Rightarrow> item_entry list \<Rightarrow> db \<Rightarrow>
   db + (db \<times> nat \<times> nat)" where
  "import_transaction now uid clearExisting bfolders bitems d =
     (let d0 = (if clearExisting
                then delete_folders_where (\<lambda>r. f_user_id r = uid)
                       (delete_items_where (\<lambda>i. i_user_id i = uid) d)
                else d)
      in case import_folders now uid clearExisting bfolders d0 Map.empty of
           Inl d1 \<Rightarrow> Inl d1
         | Inr (d1, folderMapping) \<Rightarrow>
             (case import_items now uid folderMapping bitems d1 0 of
                Inl d2 \<Rightarrow> Inl d2
              | Inr (d2, importedItems) \<Rightarrow> Inr (d2, length bfolders, importedItems)))"

text \<open>\<^verbatim>\<open>ROLLBACK\<close>: the rows are those of \<open>begun\<close>, the store at \<^verbatim>\<open>BEGIN\<close>; the sequences stay where they are.\<close>

definition rollback :: "db \<Rightarrow> db \<Rightarrow> db" where
  "rollback begun d =
     d\<lparr>folders := folders begun, items := items begun, item_versions := item_versions begun\<rparr>"

record import_request =
  rq_backupData :: "backup_bundle option"
  rq_clearExisting :: bool

text \<open>\<^verbatim>\<open>POST /import\<close>; the answer carries \<^verbatim>\<open>imported.folders\<close> and \<^verbatim>\<open>imported.items\<close>.\<close>

definition import_bundle ::
  "runtime \<Rightarrow> req_user \<Rightarrow> timestamp \<Rightarrow> import_request \<Rightarrow> db \<Rightarrow> (nat \<times> nat) reply \<times> db" where
  "import_bundle rt user now req d =
     (case rq_backupData req of
        None \<Rightarrow> (Fail 400 ''Invalid backup data'', d)
      | Some b \<Rightarrow>
          if b_data b = [] then (Fail 400 ''Invalid backup data'', d)
          else
            (case decrypt_bundle rt (u_encryptionKey user) (unbase64 rt (b_data b)) of
               None \<Rightarrow> (Fail 500 ''Failed to import data'', d)
             | Some decryptedData \<Rightarrow>
                 (case parse rt decryptedData of
                    None \<Rightarrow> (Fail 500 ''Failed to import data'', d)
                  | Some backup \<Rightarrow>
                      (case (bp_folders backup, bp_items backup) of
                         (Some bfolders, Some bitems) \<Rightarrow>
                           (case import_transaction now (u_id user) (rq_clearExisting req)
                                   bfolders bitems d of
                              Inl d1 \<Rightarrow> (Fail 500 ''Failed to import data'', rollback d d1)
                            | Inr (d1, counts) \<Rightarrow> (Done counts, d1))
                       | _ \<Rightarrow> (Fail 400 ''Invalid backup structure'', d)))))"

section \<open>A small store for the concrete cases\<close>

text \<open>
  User 1 owns \<open>Root\<close> (id 1) and \<open>Work\<close> (id 2, under Root), the text item \<open>A\<close> in Root with
  its version 1, and nothing else.
\<close>

definition root1 :: folder_row where
  "root1 = \<lparr>f_id = 1, f_name = ''Root'', f_parent_id = None, f_user_id = 1,
            f_created_at = 0, f_updated_at = 0\<rparr>"

definition work2 :: folder_row where
  "work2 = \<lparr>f_id = 2, f_name = ''Work'', f_parent_id = Some 1, f_user_id = 1,
            f_created_at = 0, f_updated_at = 0\<rparr>"

definition itemA :: item_row where
  "itemA = \<lparr>i_id = 1, i_name = ''A'', i_type = ''text'', i_encrypted_content = Some ''c1'',
            i_file_path = None, i_file_size = 0, i_language = None, i_tags = Some [],
            i_folder_id = 1, i_user_id = 1, i_access_count = 0, i_last_accessed = None,
            i_is_pinned = False, i_created_at = 0, i_updated_at = 0\<rparr>"

definition versionA1 :: version_row where
  "versionA1 = \<lparr>v_id = 1, v_item_id = 1, v_encrypted_content = Some ''c1'',
                v_version_number = 1, v_created_at = 0\<rparr>"

definition store1 :: db where
  "store1 = \<lparr>folders = [root1, work2], items = [itemA], item_versions = [versionA1],
             folders_id_seq = 2, items_id_seq = 1, item_versions_id_seq = 1\<rparr>"

text \<open>
  A stand-in for the runtime, to run the routes on concrete inputs: its cipher reverses
  the text and tags it with a length, which is enough for a tag that verifies or does not.
  Nothing proved about the routes depends on it.
\<close>

definition demo_runtime :: runtime where
  "demo_runtime =
     \<lparr>randomBytes = (\<lambda>n. replicate n 7),
      gcm_encrypt = (\<lambda>key text. Some (rev text, replicate 16 (of_nat (length key + length text)))),
      gcm_decrypt = (\<lambda>key authTag encrypted.
         if authTag = replicate 16 (of_nat (length key + length encrypted))
         then Some (rev encrypted) else None),
      base64 = map (\<lambda>w. char_of (unat w)),
      unbase64 = map (\<lambda>c. of_nat (of_char c)),
      stringify = (\<lambda>bd. [of_nat (length (bd_folders bd)), of_nat (length (bd_items bd))]),
      parse = (\<lambda>bytes. None)\<rparr>"

definition user1 :: req_user where
  "user1 = \<lparr>u_id = 1, u_email = ''u1@example.org'', u_encryptionKey = ''k''\<rparr>"

text \<open>
  Entries of a decrypted payload: the folders and items of \<open>store1\<close> with a secret item \<open>B\<close>
  in \<open>Work\<close>, and \<open>store1\<close> after the deletes of \<open>clearExisting\<close> for user 1.
\<close>

definition rootE :: folder_entry where
  "rootE = \<lparr>fe_id = 1, fe_name = ''Root'', fe_parent_id = None\<rparr>"

definition workE :: folder_entry where
  "workE = \<lparr>fe_id = 2, fe_name = ''Work'', fe_parent_id = Some 1\<rparr>"

definition aE :: item_entry where
  "aE = \<lparr>ie_name = ''A'', ie_type = ''text'', ie_encrypted_content = Some ''c1'',
          ie_folder_id = 1, ie_language = None, ie_tags = None\<rparr>"

definition bE :: item_entry where
  "bE = \<lparr>ie_name = ''B'', ie_type = ''secret'', ie_encrypted_content = Some ''c2'',
          ie_folder_id = 2, ie_language = None, ie_tags = None\<rparr>"

definition cleared1 :: db where
  "cleared1 = \<lparr>folders = [], items = [], item_versions = [],
               folders_id_seq = 2, items_id_seq = 1, item_versions_id_seq = 1\<rparr>"

text \<open>
  Requests for the concrete cases: a new text item \<open>N\<close> in Root, an update that carries the
  empty string as content, an update that carries a new name only, an item entry of a type
  the table refuses, and the envelope around the stand-in ciphertext \<open>[1, 2]\<close> with a given
  tag (the stand-in tag of that ciphertext under key \<open>k\<close> is sixteen bytes 3) and a given
  \<open>clearExisting\<close>; \<open>demo_parsing payload\<close> is the stand-in runtime whose parser returns
  \<open>payload\<close>.
\<close>

definition newN :: create_request where
  "newN = \<lparr>cr_name = Some ''N'', cr_type = Some ''text'', cr_encryptedContent = Some ''c1'',
           cr_folderId = Some 1, cr_language = None, cr_tags = None\<rparr>"

definition blankContent :: update_request where
  "blankContent = \<lparr>ur_name = None, ur_encryptedContent = Some [], ur_folderId = None,
                   ur_language = None, ur_tags = None\<rparr>"

definition renameA :: update_request where
  "renameA = \<lparr>ur_name = Some ''A2'', ur_encryptedContent = None, ur_folderId = None,
              ur_language = None, ur_tags = None\<rparr>"

definition bogusE :: item_entry where
  "bogusE = \<lparr>ie_name = ''X'', ie_type = ''bogus'', ie_encrypted_content = Some ''c3'',
             ie_folder_id = 1, ie_language = None, ie_tags = None\<rparr>"

definition demo_request :: "byte list \<Rightarrow> bool \<Rightarrow> import_request" where
  "demo_request authTag clear =
     \<lparr>rq_backupData = Some \<lparr>b_version = ''1.0.0'', b_encrypted = True,
                            b_data = base64 demo_runtime (replicate 16 7 @ authTag @ [1, 2])\<rparr>,
      rq_clearExisting = clear\<rparr>"

definition demo_parsing :: "backup_payload \<Rightarrow> runtime" where
  "demo_parsing payload = demo_runtime\<lparr>parse := (\<lambda>bytes. Some payload)\<rparr>"

definition failed_replay :: db where
  "failed_replay =
     cleared1\<lparr>folders_id_seq := 4, items_id_seq := 3,
       folders := [\<lparr>f_id = 3, f_name = ''Root'', f_parent_id = None, f_user_id = 1,
                    f_created_at = 9, f_updated_at = 9\<rparr>,
                  \<lparr>f_id = 4, f_name = ''Work'', f_parent_id = Some 3, f_user_id = 1,
                    f_created_at = 9, f_updated_at = 9\<rparr>],
       items := [\<lparr>i_id = 2, i_name = ''A'', i_type = ''text'',
                  i_encrypted_content = Some ''c1'', i_file_path = None, i_file_size = 0,
                  i_language = None, i_tags = Some [], i_folder_id = 3, i_user_id = 1,
                  i_access_count = 0, i_last_accessed = None, i_is_pinned = False,
                  i_created_at = 9, i_updated_at = 9\<rparr>]\<rparr>"

text \<open>
  A stand-in for the sealing of CryptoJS: the printed ciphertext is the bytes themselves, one
  code unit each.
\<close>

definition demo_core :: cipher_core where
  "demo_core =
     \<lparr>seal = (\<lambda>key salt bytes. map (\<lambda>b. of_nat (unat b)) bytes),
      unseal = (\<lambda>key ciphertext. Some (map (\<lambda>u. of_nat (unat u)) ciphertext))\<rparr>"

text \<open>
  A stored form of an update request supplies what the request supplies: where the request
  has no name or no language the stored form has none, and content, folder and tags are the
  request's.
\<close>

definition same_supply :: "update_request \<Rightarrow> update_request \<Rightarrow> bool" where
  "same_supply req stored =
     ((ur_name req = None \<longrightarrow> ur_name stored = None) \<and>
      (ur_language req = None \<longrightarrow> ur_language stored = None) \<and>
      ur_encryptedContent stored = ur_encryptedContent req \<and>
      ur_folderId stored = ur_folderId req \<and> ur_tags stored = ur_tags req)"

text \<open>
  A run of updates of one item by its owner, and the runs in which every update answers with
  success and carries a truthy content that differs from the content stored at that moment.
  \<open>version_numbers\<close> are the version numbers of an item in table order.
\<close>

fun run_updates :: "nat \<Rightarrow> nat \<Rightarrow> (timestamp \<times> update_request) list \<Rightarrow> db \<Rightarrow> db" where
  "run_updates uid iid [] d = d"
| "run_updates uid iid ((now, req) # rest) d =
     run_updates uid iid rest (snd (update_item uid now iid req d))"

fun changing_updates :: "nat \<Rightarrow> nat \<Rightarrow> (timestamp \<times> update_request) list \<Rightarrow> db \<Rightarrow> bool" where
  "changing_updates uid iid [] d = True"
| "changing_updates uid iid ((now, req) # rest) d =
     (case [i \<leftarrow> items d. i_id i = iid \<and> i_user_id i = uid] of
        [] \<Rightarrow> False
      | itemCheck # _ \<Rightarrow>
          truthy_str (ur_encryptedContent req) \<and>
          ur_encryptedContent req \<noteq> i_encrypted_content itemCheck \<and>
          (case fst (update_item uid now iid req d) of
             Fail _ _ \<Rightarrow> False
           | Done _ \<Rightarrow> changing_updates uid iid rest (snd (update_item uid now iid req d))))"

definition version_numbers :: "db \<Rightarrow> nat \<Rightarrow> nat list" where
  "version_numbers d iid = [v_version_number v. v \<leftarrow> item_versions d, v_item_id v = iid]"

section \<open>Root protection\<close>

text \<open>
  The rounds of \<open>cascade_folders\<close> in \<open>delete_folders_where\<close> are enough: after them no row
  is left whose parent is among the deleted rows.
\<close>

lemma cascade_folders_fixed:
  "fk_children rows dead = [] \<Longrightarrow> cascade_folders n rows dead = dead"
  by (induction n) simp_all

lemma fk_children_fresh:
  "r \<in> set (fk_children rows dead) \<Longrightarrow> r \<in> set rows \<and> r \<notin> set dead"
  by (simp add: fk_children_def)

lemma cascade_folders_closed_aux:
  "card (set rows - set dead) \<le> n \<Longrightarrow> fk_children rows (cascade_folders n rows dead) = []"
proof (induction n arbitrary: dead)
  case 0
  then have "set rows \<subseteq> set dead" by simp
  then show ?case by (auto simp: fk_children_def filter_empty_conv)
next
  case (Suc n)
  show ?case
  proof (cases "fk_children rows dead = []")
    case True
    then show ?thesis by (simp add: cascade_folders_fixed)
  next
    case False
    then obtain r where r: "r \<in> set (fk_children rows dead)"
      by (cases "fk_children rows dead") auto
    have "r \<in> set rows - set dead"
      using fk_children_fresh [OF r] by simp
    moreover have "r \<notin> set rows - set (dead @ fk_children rows dead)"
      using r by simp
    moreover have "set rows - set (dead @ fk_children rows dead) \<subseteq> set rows - set dead"
      by (simp add: Diff_mono)
    ultimately have "set rows - set (dead @ fk_children rows dead) \<subset> set rows - set dead"
      by blast
    then have "card (set rows - set (dead @ fk_children rows dead)) < card (set rows - set dead)"
      by (intro psubset_card_mono) simp_all
    then have "card (set rows - set (dead @ fk_children rows dead)) \<le> n"
      using Suc.prems by linarith
    then show ?thesis using Suc.IH by simp
  qed
qed

lemma cascade_folders_closed:
  "fk_children rows (cascade_folders (length rows) rows dead) = []"
proof -
  have "card (set rows - set dead) \<le> card (set rows)"
    by (intro card_mono) simp_all
  also have "\<dots> \<le> length rows" by (rule card_length)
  finally show ?thesis by (rule cascade_folders_closed_aux)
qed

lemmas store1_defs = store1_def root1_def work2_def itemA_def versionA1_def


lemma cascade_spares_parentless:
  "f_parent_id r = None \<Longrightarrow> r \<notin> set dead \<Longrightarrow> r \<notin> set (cascade_folders n rows dead)"
  by (induction n arbitrary: dead) (auto simp: fk_children_def)

lemma folders_delete_items_where [simp]: "folders (delete_items_where P d) = folders d"
  by (simp add: delete_items_where_def Let_def)

lemma folders_delete_folders_where:
  "set (folders (delete_folders_where P d)) \<subseteq> set (folders d)"
  by (auto simp: delete_folders_where_def Let_def)

lemma distinct_ids_delete_folders_where:
  "distinct (map f_id (folders d)) \<Longrightarrow> distinct (map f_id (folders (delete_folders_where P d)))"
  by (simp add: delete_folders_where_def Let_def distinct_map_filter)

lemma filter_hd_holds:
  assumes "filter P xs = y # ys"
  shows "y \<in> set xs \<and> P y"
proof -
  have "y \<in> set (filter P xs)" by (simp add: assms)
  then show ?thesis by simp
qed

lemma same_id_same_row:
  "distinct (map f_id rows) \<Longrightarrow> r \<in> set rows \<Longrightarrow> s \<in> set rows \<Longrightarrow> f_id r = f_id s \<Longrightarrow> r = s"
  by (meson distinct_map inj_onD)

lemma delete_folder_keeps_root:
  assumes "distinct (map f_id (folders d))" "r \<in> set (folders d)"
    "f_name r = ''Root''" "f_parent_id r = None"
  shows "r \<in> set (folders (snd (delete_folder uid fid d)))"
proof (cases "[s \<leftarrow> folders d. f_id s = fid \<and> f_user_id s = uid]")
  case Nil
  then show ?thesis using assms by (simp add: delete_folder_def)
next
  case (Cons s ss)
  then have s: "s \<in> set (folders d)" "f_id s = fid"
    using filter_hd_holds [OF Cons] by simp_all
  show ?thesis
  proof (cases "f_name s = ''Root''")
    case True
    then show ?thesis using assms Cons by (simp add: delete_folder_def)
  next
    case False
    have "r \<notin> set [t \<leftarrow> folders d. f_id t = fid \<and> f_user_id t = uid]"
      using same_id_same_row [OF assms(1) assms(2) s(1)] s(2) False assms(3) by auto
    then have "r \<notin> set (cascade_folders (length (folders d)) (folders d)
                 [t \<leftarrow> folders d. f_id t = fid \<and> f_user_id t = uid])"
      using assms(4) by (rule cascade_spares_parentless [rotated])
    then show ?thesis
      using False Cons assms(2) by (simp add: delete_folder_def delete_folders_where_def Let_def)
  qed
qed

lemma delete_step_distinct:
  "distinct (map f_id (folders d)) \<Longrightarrow> distinct (map f_id (folders (delete_step q d)))"
  by (cases q)
     (auto simp: delete_folder_def delete_item_def distinct_ids_delete_folders_where
           split: list.splits)

lemma delete_step_keeps_root:
  "distinct (map f_id (folders d)) \<Longrightarrow> r \<in> set (folders d) \<Longrightarrow> f_name r = ''Root'' \<Longrightarrow>
   f_parent_id r = None \<Longrightarrow> r \<in> set (folders (delete_step q d))"
  by (cases q) (auto simp: delete_folder_keeps_root delete_item_def split: list.splits)

lemma delete_requests_keep_root:
  "distinct (map f_id (folders d)) \<Longrightarrow> r \<in> set (folders d) \<Longrightarrow> f_name r = ''Root'' \<Longrightarrow>
   f_parent_id r = None \<Longrightarrow> r \<in> set (folders (delete_requests qs d))"
  by (induction qs arbitrary: d) (simp_all add: delete_step_distinct delete_step_keeps_root)

lemma delete_folder_rejects_root:
  assumes "distinct (map f_id (folders d))" "r \<in> set (folders d)" "f_name r = ''Root''"
  shows "delete_folder uid (f_id r) d =
           (if f_user_id r = uid then Fail 403 ''Cannot delete root folder''
            else Fail 404 ''Folder not found'', d)"
proof (cases "[s \<leftarrow> folders d. f_id s = f_id r \<and> f_user_id s = uid]")
  case Nil
  then have "f_user_id r \<noteq> uid"
    using assms(2) by (auto simp: filter_empty_conv)
  then show ?thesis using Nil by (simp add: delete_folder_def)
next
  case (Cons s ss)
  then have s: "s \<in> set (folders d)" "f_id s = f_id r" "f_user_id s = uid"
    using filter_hd_holds [OF Cons] by simp_all
  then have "s = r"
    using same_id_same_row [OF assms(1) _ assms(2)] by blast
  then show ?thesis using Cons assms(3) s by (simp add: delete_folder_def)
qed

text \<open>
  The protection goes by the name of the folder that the request names. A folder that is
  named \<open>Root\<close> and lies under another folder is not the root of its user; its own delete
  is refused like the root's, and it goes with the delete of a folder above it.
\<close>

lemma nested_folder_named_root_cascades:
  "folders (snd (delete_folder 1 2
     (store1\<lparr>folders := [root1, work2,
        \<lparr>f_id = 3, f_name = ''Root'', f_parent_id = Some 2, f_user_id = 1,
          f_created_at = 0, f_updated_at = 0\<rparr>]\<rparr>))) = [root1]"
  by (simp add: delete_folder_def delete_folders_where_def delete_items_where_def
        fk_children_def store1_defs)

text \<open>
  C9. Deleting a folder named \<open>Root\<close> is refused for every caller: the owner is answered 403
  and anyone else 404, and the store, the folder and its contents with it, is the one before
  the request. The root folder of a user, named \<open>Root\<close> and with no parent, is still in the
  folders table after any run of delete requests, by any callers. The ids of the folders
  table are distinct, as its primary key has it.
\<close>

theorem root_folder_never_deleted:
  assumes "distinct (map f_id (folders d))" and "r \<in> set (folders d)" and "f_name r = ''Root''"
  shows "delete_folder uid (f_id r) d =
           (if f_user_id r = uid then Fail 403 ''Cannot delete root folder''
            else Fail 404 ''Folder not found'', d) \<and>
         (f_parent_id r = None \<longrightarrow> r \<in> set (folders (delete_requests qs d)))"
  using assms delete_folder_rejects_root delete_requests_keep_root by blast

theorem root_folder_never_deleted_witness:
  "delete_folder 1 1 store1 = (Fail 403 ''Cannot delete root folder'', store1) \<and>
   root1 \<in> set (folders (delete_requests [DeleteFolder 1 2, DeleteItem 1 1, DeleteFolder 1 1] store1))"
proof -
  have "distinct (map f_id (folders store1))"
    by (simp add: store1_def root1_def work2_def)
  moreover have "root1 \<in> set (folders store1)"
    by (simp add: store1_def)
  moreover have "f_name root1 = ''Root''" "f_parent_id root1 = None" "f_user_id root1 = 1"
    "f_id root1 = 1"
    by (simp_all add: root1_def)
  ultimately show ?thesis
    using root_folder_never_deleted
      [of store1 root1 1 "[DeleteFolder 1 2, DeleteItem 1 1, DeleteFolder 1 1]"]
    by simp
qed

section \<open>The envelope of export and the decryption of import\<close>

text \<open>
  C8. A bundle that export returns has version \<open>1.0.0\<close>, encrypted \<open>True\<close> and, as data, the
  base64 of the 16 bytes of \<^verbatim>\<open>randomBytes(16)\<close>, then the 16-byte tag, then the ciphertext
  of the serialised snapshot; the record type has no other field. The runtime gives 16 random
  bytes and 16-byte tags.
\<close>

theorem export_bundle_envelope:
  assumes "export_bundle rt user now d = Done b"
    and "length (randomBytes rt 16) = 16"
    and "\<forall>key text encrypted authTag.
           gcm_encrypt rt key text = Some (encrypted, authTag) \<longrightarrow> length authTag = 16"
  shows "b_version b = ''1.0.0'' \<and> b_encrypted b = True \<and>
         (\<exists>iv authTag encrypted.
            length iv = 16 \<and> length authTag = 16 \<and> iv = randomBytes rt 16 \<and>
            gcm_encrypt rt (u_encryptionKey user) (stringify rt (export_data user now d)) =
              Some (encrypted, authTag) \<and>
            b_data b = base64 rt (iv @ authTag @ encrypted))"
proof (cases "gcm_encrypt rt (u_encryptionKey user) (stringify rt (export_data user now d))")
  case None
  then show ?thesis using assms(1) by (simp add: export_bundle_def)
next
  case (Some ca)
  obtain encrypted authTag where ca: "ca = (encrypted, authTag)" by (cases ca)
  have "length authTag = 16" using assms(3) Some ca by blast
  moreover have "b = \<lparr>b_version = ''1.0.0'', b_encrypted = True,
      b_data = base64 rt (randomBytes rt 16 @ authTag @ encrypted)\<rparr>"
    using assms(1) Some ca by (simp add: export_bundle_def)
  ultimately show ?thesis using assms(2) Some ca by simp
qed

theorem export_bundle_envelope_witness:
  "\<exists>b. export_bundle demo_runtime user1 5 store1 = Done b \<and>
       b_version b = ''1.0.0'' \<and> b_encrypted b = True \<and>
       b_data b = base64 demo_runtime (replicate 16 7 @ replicate 16 3 @ [1, 2])"
proof -
  let ?b = "\<lparr>b_version = ''1.0.0'', b_encrypted = True,
             b_data = base64 demo_runtime (replicate 16 7 @ replicate 16 3 @ [1, 2])\<rparr>"
  have run: "export_bundle demo_runtime user1 5 store1 = Done ?b"
    by (simp add: export_bundle_def demo_runtime_def user1_def export_data_def store1_defs)
  have rnd: "length (randomBytes demo_runtime 16) = 16"
    by (simp add: demo_runtime_def)
  have tag: "\<forall>key text encrypted authTag.
      gcm_encrypt demo_runtime key text = Some (encrypted, authTag) \<longrightarrow> length authTag = 16"
    by (auto simp: demo_runtime_def)
  from export_bundle_envelope [OF run rnd tag] run show ?thesis by auto
qed

lemma decrypt_bundle_ignores_iv:
  "i < 16 \<Longrightarrow>
   decrypt_bundle rt key (encryptedBuffer[i := x]) = decrypt_bundle rt key encryptedBuffer"
  by (simp add: decrypt_bundle_def)

lemma decrypt_bundle_layout:
  "length iv = 16 \<Longrightarrow> length authTag = 16 \<Longrightarrow>
   decrypt_bundle rt key (iv @ authTag @ encrypted) = gcm_decrypt rt key authTag encrypted"
  by (simp add: decrypt_bundle_def)

text \<open>The stand-in runtime decodes what it encodes and decrypts what it encrypts.\<close>

lemma byte_mod: "word_of_nat (unat w mod 256) = w" for w :: byte
proof -
  have "unat w < 256" using unsigned_less [of w, where ?'a = nat] by simp
  then show ?thesis by simp
qed

lemma demo_base64: "unbase64 demo_runtime (base64 demo_runtime bytes) = bytes"
  by (simp add: demo_runtime_def comp_def byte_mod)

lemma demo_gcm:
  assumes "gcm_encrypt demo_runtime key plain = Some (encrypted, authTag)"
  shows "length authTag = 16 \<and> gcm_decrypt demo_runtime key authTag encrypted = Some plain"
proof -
  have e: "encrypted = rev plain" "authTag = replicate 16 (of_nat (length key + length plain))"
    using assms by (simp_all add: demo_runtime_def)
  show ?thesis
    unfolding e by (simp add: demo_runtime_def)
qed

text \<open>
  C1. Import slices the first 16 bytes of the decoded data off as \<open>iv\<close> and hands the
  decipher the tag and the ciphertext only. So for a bundle that export returned, with a
  runtime that decodes its own base64 and whose decipher accepts what its cipher produced,
  the decoded data with any one of its first 16 bytes replaced by any value still decrypts,
  and to the very text that was exported: a modified nonce prefix is not detected.
\<close>

theorem tampered_nonce_still_decrypts:
  assumes "export_bundle rt user now d = Done b"
    and "\<forall>bytes. unbase64 rt (base64 rt bytes) = bytes"
    and "\<forall>key plain encrypted authTag.
           gcm_encrypt rt key plain = Some (encrypted, authTag) \<longrightarrow>
           length authTag = 16 \<and> gcm_decrypt rt key authTag encrypted = Some plain"
    and "length (randomBytes rt 16) = 16"
    and "i < 16"
  shows "decrypt_bundle rt (u_encryptionKey user) ((unbase64 rt (b_data b))[i := x]) =
           Some (stringify rt (export_data user now d))"
proof (cases "gcm_encrypt rt (u_encryptionKey user) (stringify rt (export_data user now d))")
  case None
  then show ?thesis using assms(1) by (simp add: export_bundle_def)
next
  case (Some ca)
  obtain encrypted authTag where ca: "ca = (encrypted, authTag)" by (cases ca)
  have tag: "length authTag = 16"
    and dec: "gcm_decrypt rt (u_encryptionKey user) authTag encrypted =
      Some (stringify rt (export_data user now d))"
    using assms(3) Some ca by blast+
  have "b_data b = base64 rt (randomBytes rt 16 @ authTag @ encrypted)"
    using assms(1) Some ca by (auto simp: export_bundle_def)
  then have "unbase64 rt (b_data b) = randomBytes rt 16 @ authTag @ encrypted"
    using assms(2) by simp
  then show ?thesis
    using decrypt_bundle_ignores_iv [OF assms(5)] decrypt_bundle_layout [OF assms(4) tag] dec
    by simp
qed

theorem tampered_nonce_still_decrypts_witness:
  "\<exists>b. export_bundle demo_runtime user1 5 store1 = Done b \<and>
     unbase64 demo_runtime (b_data b) = replicate 16 7 @ replicate 16 3 @ [1, 2] \<and>
     decrypt_bundle demo_runtime ''k'' ((replicate 16 7 @ replicate 16 3 @ [1, 2])[0 := 255]) =
       Some [2, 1]"
proof -
  let ?b = "\<lparr>b_version = ''1.0.0'', b_encrypted = True,
             b_data = base64 demo_runtime (replicate 16 7 @ replicate 16 3 @ [1, 2])\<rparr>"
  have run: "export_bundle demo_runtime user1 5 store1 = Done ?b"
    by (simp add: export_bundle_def demo_runtime_def user1_def export_data_def store1_defs)
  have plain: "stringify demo_runtime (export_data user1 5 store1) = [2, 1]"
    by (simp add: demo_runtime_def export_data_def store1_defs user1_def)
  have key: "u_encryptionKey user1 = ''k''" by (simp add: user1_def)
  have rnd: "length (randomBytes demo_runtime 16) = 16" by (simp add: demo_runtime_def)
  have dat: "unbase64 demo_runtime (b_data ?b) = replicate 16 7 @ replicate 16 3 @ [1, 2]"
    by (simp add: demo_base64)
  have "decrypt_bundle demo_runtime (u_encryptionKey user1)
      ((unbase64 demo_runtime (b_data ?b))[0 := 255]) =
      Some (stringify demo_runtime (export_data user1 5 store1))"
  proof (rule tampered_nonce_still_decrypts [OF run _ _ rnd])
    show "\<forall>bytes. unbase64 demo_runtime (base64 demo_runtime bytes) = bytes"
      by (simp add: demo_base64)
    show "\<forall>key plain encrypted authTag.
         gcm_encrypt demo_runtime key plain = Some (encrypted, authTag) \<longrightarrow>
         length authTag = 16 \<and> gcm_decrypt demo_runtime key authTag encrypted = Some plain"
      using demo_gcm by blast
    show "(0::nat) < 16" by simp
  qed
  then have "decrypt_bundle demo_runtime ''k''
      ((replicate 16 7 @ replicate 16 3 @ [1, 2])[0 := 255]) = Some [2, 1]"
    by (simp only: plain key dat)
  then show ?thesis using run dat by blast
qed

section \<open>The replay of import\<close>

lemmas entry_defs = rootE_def workE_def aE_def bE_def

lemmas import_defs = import_transaction_def import_folder_def existingRoot_def
  insert_mapped_folder_def insert_folder_def insert_item_def item_row_ok_def validTypes_def
  varchar_def has_nul_def max_integer_def delete_folders_where_def delete_items_where_def
  fk_children_def Let_def

lemma clear_store1:
  "delete_folders_where (\<lambda>r. f_user_id r = 1)
     (delete_items_where (\<lambda>i. i_user_id i = 1) store1) = cleared1"
  by (simp add: import_defs store1_defs cleared1_def)

lemma import_transaction_folder_count:
  "import_transaction now uid clearExisting bfolders bitems d = Inr (d', nf, ni) \<Longrightarrow>
   nf = length bfolders"
  by (auto simp: import_transaction_def Let_def split: sum.splits)

lemma insert_item_appends:
  "insert_item now name type content folderId uid language tags d = Inr (row, d1) \<Longrightarrow>
   items d1 = items d @ [row]"
  by (auto simp: insert_item_def Let_def split: option.splits if_splits)

lemma import_items_counts_inserts:
  "import_items now uid folderMapping bitems d n = Inr (d', n') \<Longrightarrow>
   n \<le> n' \<and> length (items d') + n = length (items d) + n'"
proof (induction bitems arbitrary: d n)
  case Nil
  then show ?case by simp
next
  case (Cons item rest)
  show ?case
  proof (cases "ie_type item = ''file'' \<or> folderMapping (ie_folder_id item) = None \<or>
                folderMapping (ie_folder_id item) = Some 0")
    case True
    then have "import_items now uid folderMapping rest d n = Inr (d', n')"
      using Cons.prems by (auto split: option.splits if_splits)
    then show ?thesis by (rule Cons.IH)
  next
    case False
    then obtain newFolderId where m: "folderMapping (ie_folder_id item) = Some newFolderId"
      "newFolderId \<noteq> 0" "ie_type item \<noteq> ''file''"
      by auto
    from Cons.prems m obtain row d1 where
      ins: "insert_item now (ie_name item) (ie_type item) (ie_encrypted_content item)
              newFolderId uid (ie_language item) (coalesce (ie_tags item) []) d = Inr (row, d1)"
      and rest: "import_items now uid folderMapping rest d1 (n + 1) = Inr (d', n')"
      by (auto split: sum.splits if_splits)
    have "length (items d1) = length (items d) + 1"
      using insert_item_appends [OF ins] by simp
    with Cons.IH [OF rest] show ?thesis by arith
  qed
qed

text \<open>
  C2. The folders count of the answer is the length of the bundle's folders array
  (\<open>import_transaction_folder_count\<close>), whatever was inserted. Importing the backup of
  \<open>store1\<close> into \<open>store1\<close> without clearing: \<open>Root\<close> is mapped onto the existing root, the
  insert of \<open>Work\<close> conflicts with the existing \<open>Work\<close> and returns no row, so no folder row is
  inserted and one id is mapped, and the answer of the route says 2 folders. Of the two items
  the one in \<open>Work\<close> is skipped, and the items count is 1, the number inserted, as it is in
  every import (\<open>import_items_counts_inserts\<close>).
\<close>

theorem import_counts_folder_array_length:
  "import_folders 9 1 False [rootE, workE] store1 Map.empty =
     Inr (store1\<lparr>folders_id_seq := 3\<rparr>, [1 \<mapsto> 1]) \<and>
   (\<exists>d'. import_bundle (demo_parsing \<lparr>bp_folders = Some [rootE, workE], bp_items = Some [aE, bE]\<rparr>)
           user1 9 (demo_request (replicate 16 3) False) store1 = (Done (2, 1), d') \<and>
      folders d' = folders store1 \<and> length (items d') = length (items store1) + 1)"
  by (simp add: import_bundle_def decrypt_bundle_def demo_request_def demo_parsing_def
        demo_runtime_def user1_def import_defs store1_defs entry_defs)

text \<open>
  What the folder loop does with every folder whose parent reference does not resolve through
  the mapping built so far (the parent comes later, is absent, or is the falsy id 0): it runs
  the insert with a null parent. Unless the folder is mapped onto the existing root, and when
  the insert does not fail (the name fits the column and has no character of code 0, the
  sequence has not reached its end), a top-level row is created and the folder's id is mapped
  to it.
\<close>

lemma unresolved_parent_goes_top_level:
  assumes "fe_parent_id folder = Some p" and "p = 0 \<or> folderMapping p = None"
    and "length (fe_name folder) \<le> 255" and "\<not> has_nul (fe_name folder)"
    and "folders_id_seq d < max_integer"
    and "clearExisting \<or> fe_name folder \<noteq> ''Root'' \<or> existingRoot uid d = []"
  shows "import_folder now uid clearExisting folder d folderMapping =
     Inr (d\<lparr>folders_id_seq := folders_id_seq d + 1,
            folders := folders d @
              [\<lparr>f_id = folders_id_seq d + 1, f_name = fe_name folder, f_parent_id = None,
                f_user_id = uid, f_created_at = now, f_updated_at = now\<rparr>]\<rparr>,
          folderMapping(fe_id folder \<mapsto> folders_id_seq d + 1))"
proof -
  have ins: "insert_folder now (fe_name folder) None uid d =
      Inr (Some (folders_id_seq d + 1),
           d\<lparr>folders_id_seq := folders_id_seq d + 1,
             folders := folders d @
               [\<lparr>f_id = folders_id_seq d + 1, f_name = fe_name folder, f_parent_id = None,
                 f_user_id = uid, f_created_at = now, f_updated_at = now\<rparr>]\<rparr>)"
    using assms(3,4,5) by (simp add: insert_folder_def varchar_def Let_def)
  have par: "(case fe_parent_id folder of None \<Rightarrow> None
              | Some p \<Rightarrow> if p = 0 then None else folderMapping p) = None"
    using assms(1,2) by auto
  have "insert_mapped_folder now uid folder d folderMapping =
      Inr (d\<lparr>folders_id_seq := folders_id_seq d + 1,
             folders := folders d @
               [\<lparr>f_id = folders_id_seq d + 1, f_name = fe_name folder, f_parent_id = None,
                 f_user_id = uid, f_created_at = now, f_updated_at = now\<rparr>]\<rparr>,
           folderMapping(fe_id folder \<mapsto> folders_id_seq d + 1))"
    by (simp add: insert_mapped_folder_def par ins)
  then show ?thesis
    using assms(6) by (auto simp: import_folder_def split: list.splits)
qed

text \<open>
  C3. The folder loop has no skip, where the item loop has one for a folder that is not in
  the mapping: with \<open>clearExisting\<close>, \<open>Work\<close> (parent 1) listed before \<open>Root\<close> (id 1) is not
  left out. Its parent is not in the mapping yet, the insert runs with a null parent, a
  top-level row \<open>Work\<close> is created and bundle id 2 is mapped to it; the whole import then
  answers 2 folders and 2 items, with \<open>Work\<close> beside \<open>Root\<close> instead of under it and the item
  of folder 2 in that top-level row. The hierarchy of the bundle, which the loop is there to
  keep, is lost.
\<close>

theorem unresolved_parent_inserted_example:
  "import_folder 9 1 True workE cleared1 Map.empty =
     Inr (cleared1\<lparr>folders_id_seq := 3,
            folders := [\<lparr>f_id = 3, f_name = ''Work'', f_parent_id = None, f_user_id = 1,
                        f_created_at = 9, f_updated_at = 9\<rparr>]\<rparr>, [2 \<mapsto> 3]) \<and>
   (\<exists>d'. import_transaction 9 1 True [workE, rootE] [aE, bE] store1 = Inr (d', 2, 2) \<and>
      map f_name (folders d') = [''Work'', ''Root''] \<and>
      map f_parent_id (folders d') = [None, None] \<and>
      map i_folder_id (items d') = [4, 3])"
  by (simp add: import_defs store1_defs cleared1_def entry_defs)





section \<open>Failures of import\<close>

lemma import_bundle_fail_rows:
  "import_bundle rt user now req d = (Fail code msg, d') \<Longrightarrow>
   folders d' = folders d \<and> items d' = items d \<and> item_versions d' = item_versions d"
  by (auto simp: import_bundle_def rollback_def
           split: option.splits if_splits sum.splits prod.splits)

text \<open>
  C7. For a request that carries data: when the decryption fails, when the decrypted text
  does not parse, and when the payload lacks the folders or the items collection, import
  answers with an error and the store is the one before the call, whatever \<open>clearExisting\<close>
  says. When a statement of the transaction fails, the answer is an error and the rows of
  folders, items and item_versions are those before the call. So every failed import leaves
  these rows as they were.
\<close>

theorem import_failure_writes_nothing:
  assumes "rq_backupData req = Some b" and "b_data b \<noteq> []"
  shows
   "(decrypt_bundle rt (u_encryptionKey user) (unbase64 rt (b_data b)) = None \<longrightarrow>
       import_bundle rt user now req d = (Fail 500 ''Failed to import data'', d)) \<and>
    (\<forall>decryptedData.
       decrypt_bundle rt (u_encryptionKey user) (unbase64 rt (b_data b)) = Some decryptedData \<and>
       parse rt decryptedData = None \<longrightarrow>
       import_bundle rt user now req d = (Fail 500 ''Failed to import data'', d)) \<and>
    (\<forall>decryptedData backup.
       decrypt_bundle rt (u_encryptionKey user) (unbase64 rt (b_data b)) = Some decryptedData \<and>
       parse rt decryptedData = Some backup \<and>
       (bp_folders backup = None \<or> bp_items backup = None) \<longrightarrow>
       import_bundle rt user now req d = (Fail 400 ''Invalid backup structure'', d)) \<and>
    (\<forall>decryptedData backup bfolders bitems d1.
       decrypt_bundle rt (u_encryptionKey user) (unbase64 rt (b_data b)) = Some decryptedData \<and>
       parse rt decryptedData = Some backup \<and>
       bp_folders backup = Some bfolders \<and> bp_items backup = Some bitems \<and>
       import_transaction now (u_id user) (rq_clearExisting req) bfolders bitems d = Inl d1 \<longrightarrow>
       import_bundle rt user now req d = (Fail 500 ''Failed to import data'', rollback d d1)) \<and>
    (\<forall>code msg d'.
       import_bundle rt user now req d = (Fail code msg, d') \<longrightarrow>
       folders d' = folders d \<and> items d' = items d \<and> item_versions d' = item_versions d)"
proof (intro conjI allI impI)
  assume "decrypt_bundle rt (u_encryptionKey user) (unbase64 rt (b_data b)) = None"
  then show "import_bundle rt user now req d = (Fail 500 ''Failed to import data'', d)"
    using assms by (simp add: import_bundle_def)
next
  fix decryptedData
  assume "decrypt_bundle rt (u_encryptionKey user) (unbase64 rt (b_data b)) = Some decryptedData \<and>
       parse rt decryptedData = None"
  then show "import_bundle rt user now req d = (Fail 500 ''Failed to import data'', d)"
    using assms by (simp add: import_bundle_def)
next
  fix decryptedData backup
  assume "decrypt_bundle rt (u_encryptionKey user) (unbase64 rt (b_data b)) = Some decryptedData \<and>
       parse rt decryptedData = Some backup \<and>
       (bp_folders backup = None \<or> bp_items backup = None)"
  then show "import_bundle rt user now req d = (Fail 400 ''Invalid backup structure'', d)"
    using assms by (auto simp: import_bundle_def split: option.splits)
next
  fix decryptedData backup bfolders bitems d1
  assume "decrypt_bundle rt (u_encryptionKey user) (unbase64 rt (b_data b)) = Some decryptedData \<and>
       parse rt decryptedData = Some backup \<and>
       bp_folders backup = Some bfolders \<and> bp_items backup = Some bitems \<and>
       import_transaction now (u_id user) (rq_clearExisting req) bfolders bitems d = Inl d1"
  then show "import_bundle rt user now req d = (Fail 500 ''Failed to import data'', rollback d d1)"
    using assms by (simp add: import_bundle_def)
next
  fix code msg d'
  assume "import_bundle rt user now req d = (Fail code msg, d')"
  then show "folders d' = folders d" "items d' = items d" "item_versions d' = item_versions d"
    using import_bundle_fail_rows by blast+
qed

text \<open>
  The three kinds of failure on \<open>store1\<close>, each with \<open>clearExisting\<close> set: a tag that does not
  verify; a payload without items; and a payload whose second item has a type the table
  refuses, after the deletes, two folder inserts and one item insert of the transaction
  (\<open>failed_replay\<close> is the store as the failed insert left it). In the last the sequences
  have moved and the rows have not.
\<close>

lemma failed_replay_store1:
  "import_transaction 9 1 True [rootE, workE] [aE, bogusE, bE] store1 = Inl failed_replay"
  by (simp add: import_defs store1_defs cleared1_def entry_defs bogusE_def failed_replay_def)

theorem import_failure_writes_nothing_witness:
  "import_bundle demo_runtime user1 9 (demo_request (replicate 16 9) True) store1 =
     (Fail 500 ''Failed to import data'', store1) \<and>
   import_bundle (demo_parsing \<lparr>bp_folders = Some [rootE, workE], bp_items = None\<rparr>) user1 9
       (demo_request (replicate 16 3) True) store1 =
     (Fail 400 ''Invalid backup structure'', store1) \<and>
   import_bundle (demo_parsing \<lparr>bp_folders = Some [rootE, workE], bp_items = Some [aE, bogusE, bE]\<rparr>)
       user1 9 (demo_request (replicate 16 3) True) store1 =
     (Fail 500 ''Failed to import data'', store1\<lparr>folders_id_seq := 4, items_id_seq := 3\<rparr>)"
proof -
  let ?bad = "demo_request (replicate 16 9) True" and ?good = "demo_request (replicate 16 3) True"
  let ?noitems = "demo_parsing \<lparr>bp_folders = Some [rootE, workE], bp_items = None\<rparr>"
  let ?bogus = "demo_parsing \<lparr>bp_folders = Some [rootE, workE], bp_items = Some [aE, bogusE, bE]\<rparr>"
  obtain bb where bb: "rq_backupData ?bad = Some bb" "b_data bb \<noteq> []"
    "decrypt_bundle demo_runtime (u_encryptionKey user1) (unbase64 demo_runtime (b_data bb)) = None"
    by (simp add: demo_request_def demo_runtime_def decrypt_bundle_def user1_def)
  obtain gb where gb: "rq_backupData ?good = Some gb" "b_data gb \<noteq> []"
    "decrypt_bundle ?noitems (u_encryptionKey user1) (unbase64 ?noitems (b_data gb)) = Some [2, 1]"
    "decrypt_bundle ?bogus (u_encryptionKey user1) (unbase64 ?bogus (b_data gb)) = Some [2, 1]"
    by (simp add: demo_request_def demo_parsing_def demo_runtime_def decrypt_bundle_def user1_def)
  have p1: "parse ?noitems [2, 1] = Some \<lparr>bp_folders = Some [rootE, workE], bp_items = None\<rparr>"
    and p2: "parse ?bogus [2, 1] =
      Some \<lparr>bp_folders = Some [rootE, workE], bp_items = Some [aE, bogusE, bE]\<rparr>"
    by (simp_all add: demo_parsing_def)
  have tx: "import_transaction 9 (u_id user1) (rq_clearExisting ?good) [rootE, workE]
      [aE, bogusE, bE] store1 = Inl failed_replay"
    using failed_replay_store1 by (simp add: user1_def demo_request_def)
  have rb: "rollback store1 failed_replay = store1\<lparr>folders_id_seq := 4, items_id_seq := 3\<rparr>"
    by (simp add: rollback_def failed_replay_def cleared1_def store1_def)
  have c1: "import_bundle demo_runtime user1 9 ?bad store1 =
      (Fail 500 ''Failed to import data'', store1)"
    using import_failure_writes_nothing [OF bb(1,2), of demo_runtime user1 9 store1] bb(3)
    by blast
  have c2: "import_bundle ?noitems user1 9 ?good store1 =
      (Fail 400 ''Invalid backup structure'', store1)"
    using import_failure_writes_nothing [OF gb(1,2), of ?noitems user1 9 store1] gb(3) p1
    by simp
  have c3: "import_bundle ?bogus user1 9 ?good store1 =
      (Fail 500 ''Failed to import data'', rollback store1 failed_replay)"
    using import_failure_writes_nothing [OF gb(1,2), of ?bogus user1 9 store1] gb(4) p2 tx
    by simp
  show ?thesis
    using c1 c2 c3 rb by simp
qed

section \<open>The content cipher\<close>

text \<open>
  C4, as stated, fails at the empty plaintext: \<^verbatim>\<open>decrypt\<close> takes an empty result of the
  library for a failed decryption and throws. No library whose decryption of a ciphertext
  gives back the empty plaintext makes the round trip work for it.
\<close>

theorem empty_plaintext_round_trip_fails:
  "\<not> (\<forall>aes_encrypt aes_decrypt K P C.
        aes_encrypt P K = Some C \<longrightarrow> aes_decrypt C K = Some P \<longrightarrow>
        encrypt aes_encrypt K P = Inr C \<and> decrypt aes_decrypt K C = Inr P)"
proof
  assume claim: "\<forall>aes_encrypt aes_decrypt K P C.
        aes_encrypt P K = Some C \<longrightarrow> aes_decrypt C K = Some P \<longrightarrow>
        encrypt aes_encrypt K P = Inr C \<and> decrypt aes_decrypt K C = Inr P"
  have "decrypt (\<lambda>c k. Some []) [0x6B] [0x55, 0x32, 0x46] = Inr []"
    using claim [rule_format, of "\<lambda>t k. Some [0x55, 0x32, 0x46]" "[]" "[0x6B]" "[0x55, 0x32, 0x46]"
        "\<lambda>c k. Some []"]
    by simp
  then show False by (simp add: decrypt_def)
qed

subsection \<open>UTF-8 there and back\<close>

lemma unat_byte: "n < 256 \<Longrightarrow> unat (of_nat n :: byte) = n"
  by (simp add: unsigned_of_nat take_bit_nat_eq_self)

lemma unat_unit: "n < 65536 \<Longrightarrow> unat (of_nat n :: 16 word) = n"
  by (simp add: unsigned_of_nat take_bit_nat_eq_self)

lemma unit_bound: "unat (u :: 16 word) < 65536"
  using unsigned_less [of u, where ?'a = nat] by simp

lemma decode_at_1:
  assumes "c < 0x80"
  shows "decode_at (of_nat c) rest = Some (c, rest)"
proof -
  have "unat (of_nat c :: byte) = c" using assms by (intro unat_byte) simp
  then show ?thesis using assms by (simp add: decode_at_def)
qed

lemma continuation_byte:
  assumes "r < 64"
  shows "continuation (of_nat (0x80 + r))" and "unat (of_nat (0x80 + r) :: byte) - 0x80 = r"
proof -
  have "unat (of_nat (0x80 + r) :: byte) = 0x80 + r" using assms by (intro unat_byte) simp
  then show "continuation (of_nat (0x80 + r))" "unat (of_nat (0x80 + r) :: byte) - 0x80 = r"
    using assms by (simp_all add: continuation_def)
qed

lemma decode_at_2:
  assumes "2 \<le> q" and "q < 32" and "r < 64"
  shows "decode_at (of_nat (0xC0 + q)) (of_nat (0x80 + r) # rest) = Some (q * 64 + r, rest)"
proof -
  have x: "unat (of_nat (0xC0 + q) :: byte) = 0xC0 + q"
    using assms by (intro unat_byte) simp
  show ?thesis
    using assms x continuation_byte [OF assms(3)] by (simp add: decode_at_def Let_def)
qed

lemma decode_at_3:
  assumes "p < 16" and "q < 64" and "r < 64" and "0x800 \<le> p * 4096 + q * 64 + r"
    and "p * 4096 + q * 64 + r < 0xD800 \<or> 0xE000 \<le> p * 4096 + q * 64 + r"
  shows "decode_at (of_nat (0xE0 + p)) (of_nat (0x80 + q) # of_nat (0x80 + r) # rest) =
         Some (p * 4096 + q * 64 + r, rest)"
proof -
  have x: "unat (of_nat (0xE0 + p) :: byte) = 0xE0 + p"
    using assms by (intro unat_byte) simp
  show ?thesis
    using assms x continuation_byte [OF assms(2)] continuation_byte [OF assms(3)]
    by (simp add: decode_at_def Let_def)
qed

lemma decode_at_4:
  assumes "o' < 8" and "p < 64" and "q < 64" and "r < 64"
    and "0x10000 \<le> o' * 262144 + p * 4096 + q * 64 + r"
    and "o' * 262144 + p * 4096 + q * 64 + r < 0x110000"
  shows "decode_at (of_nat (0xF0 + o')) (of_nat (0x80 + p) # of_nat (0x80 + q) #
           of_nat (0x80 + r) # rest) = Some (o' * 262144 + p * 4096 + q * 64 + r, rest)"
proof -
  have x: "unat (of_nat (0xF0 + o') :: byte) = 0xF0 + o'"
    using assms by (intro unat_byte) simp
  show ?thesis
    using assms x continuation_byte [OF assms(2)] continuation_byte [OF assms(3)]
      continuation_byte [OF assms(4)]
    by (simp add: decode_at_def Let_def)
qed

lemma digits2: "c div 64 * 64 + c mod 64 = (c::nat)"
  by simp

lemma shift_digit: "a * 64 + b = q \<Longrightarrow> a * (64 * k) + b * k = q * (k::nat)"
  by (auto simp: distrib_right mult.assoc)

lemma digits3: "c div 4096 * 4096 + c div 64 mod 64 * 64 + c mod 64 = (c::nat)"
proof -
  define q where "q = c div 64"
  have p: "c div 4096 = q div 64" by (simp add: q_def div_mult2_eq [symmetric])
  have "q div 64 * (64 * 64) + q mod 64 * 64 = q * 64"
    by (rule shift_digit) simp
  then have "q div 64 * 4096 + q mod 64 * 64 + c mod 64 = q * 64 + c mod 64" by simp
  then show ?thesis by (simp only: p q_def digits2)
qed

lemma digits4:
  "c div 262144 * 262144 + c div 4096 mod 64 * 4096 + c div 64 mod 64 * 64 + c mod 64 = (c::nat)"
proof -
  define q where "q = c div 4096"
  have o: "c div 262144 = q div 64" by (simp add: q_def div_mult2_eq [symmetric])
  have "q div 64 * (64 * 4096) + q mod 64 * 4096 = q * 4096"
    by (rule shift_digit) simp
  then have "q div 64 * 262144 + q mod 64 * 4096 + c div 64 mod 64 * 64 + c mod 64 =
      q * 4096 + c div 64 mod 64 * 64 + c mod 64" by simp
  then show ?thesis by (simp only: o q_def digits3)
qed

lemma decode_at_encoded:
  assumes "c < 0x110000" and "c < 0xD800 \<or> 0xE000 \<le> c"
  shows "\<exists>b bs. utf8_of_code_point c = b # bs \<and> decode_at b (bs @ rest) = Some (c, rest)"
proof -
  consider "c < 0x80" | "0x80 \<le> c" "c < 0x800" | "0x800 \<le> c" "c < 0x10000" | "0x10000 \<le> c"
    by linarith
  then show ?thesis
  proof cases
    case 1
    then show ?thesis
      using decode_at_1 [OF 1, of rest] by (simp add: utf8_of_code_point_def)
  next
    case 2
    have c: "c div 64 * 64 + c mod 64 = c" by (rule digits2)
    have "decode_at (of_nat (0xC0 + c div 64)) (of_nat (0x80 + c mod 64) # rest) =
        Some (c div 64 * 64 + c mod 64, rest)"
    proof (rule decode_at_2)
      show "2 \<le> c div 64" using 2 by (simp add: less_eq_div_iff_mult_less_eq)
      show "c div 64 < 32" using 2 by (intro less_mult_imp_div_less) simp
      show "c mod 64 < 64" by simp
    qed
    then have "decode_at (of_nat (0xC0 + c div 64)) (of_nat (0x80 + c mod 64) # rest) =
        Some (c, rest)"
      by (simp only: c)
    moreover have "utf8_of_code_point c = [of_nat (0xC0 + c div 64), of_nat (0x80 + c mod 64)]"
      using 2 by (simp only: utf8_of_code_point_def) simp
    ultimately show ?thesis by simp
  next
    case 3
    have c: "c div 4096 * 4096 + c div 64 mod 64 * 64 + c mod 64 = c" by (rule digits3)
    have "decode_at (of_nat (0xE0 + c div 4096))
        (of_nat (0x80 + c div 64 mod 64) # of_nat (0x80 + c mod 64) # rest) =
        Some (c div 4096 * 4096 + c div 64 mod 64 * 64 + c mod 64, rest)"
    proof (rule decode_at_3)
      show "c div 4096 < 16" using 3 by (intro less_mult_imp_div_less) simp
      show "c div 64 mod 64 < 64" "c mod 64 < 64" by simp_all
      show "0x800 \<le> c div 4096 * 4096 + c div 64 mod 64 * 64 + c mod 64"
        using 3 by (simp only: c)
      show "c div 4096 * 4096 + c div 64 mod 64 * 64 + c mod 64 < 0xD800 \<or>
            0xE000 \<le> c div 4096 * 4096 + c div 64 mod 64 * 64 + c mod 64"
        using assms(2) by (simp only: c)
    qed
    then have "decode_at (of_nat (0xE0 + c div 4096))
        (of_nat (0x80 + c div 64 mod 64) # of_nat (0x80 + c mod 64) # rest) = Some (c, rest)"
      by (simp only: c)
    moreover have "utf8_of_code_point c = [of_nat (0xE0 + c div 4096),
        of_nat (0x80 + c div 64 mod 64), of_nat (0x80 + c mod 64)]"
      using 3 by (simp only: utf8_of_code_point_def) simp
    ultimately show ?thesis by simp
  next
    case 4
    have c: "c div 262144 * 262144 + c div 4096 mod 64 * 4096 + c div 64 mod 64 * 64 + c mod 64 = c"
      by (rule digits4)
    have "decode_at (of_nat (0xF0 + c div 262144))
        (of_nat (0x80 + c div 4096 mod 64) # of_nat (0x80 + c div 64 mod 64) #
         of_nat (0x80 + c mod 64) # rest) =
        Some (c div 262144 * 262144 + c div 4096 mod 64 * 4096 + c div 64 mod 64 * 64 + c mod 64,
              rest)"
    proof (rule decode_at_4)
      show "c div 262144 < 8" using assms(1) by (intro less_mult_imp_div_less) simp
      show "c div 4096 mod 64 < 64" "c div 64 mod 64 < 64" "c mod 64 < 64" by simp_all
      show "0x10000 \<le> c div 262144 * 262144 + c div 4096 mod 64 * 4096 + c div 64 mod 64 * 64 +
          c mod 64"
        using 4 by (simp only: c)
      show "c div 262144 * 262144 + c div 4096 mod 64 * 4096 + c div 64 mod 64 * 64 + c mod 64 <
          0x110000"
        using assms(1) by (simp only: c)
    qed
    then have "decode_at (of_nat (0xF0 + c div 262144))
        (of_nat (0x80 + c div 4096 mod 64) # of_nat (0x80 + c div 64 mod 64) #
         of_nat (0x80 + c mod 64) # rest) = Some (c, rest)"
      by (simp only: c)
    moreover have "utf8_of_code_point c = [of_nat (0xF0 + c div 262144),
        of_nat (0x80 + c div 4096 mod 64), of_nat (0x80 + c div 64 mod 64),
        of_nat (0x80 + c mod 64)]"
      using 4 by (simp only: utf8_of_code_point_def) simp
    ultimately show ?thesis by simp
  qed
qed

lemma utf8_stringify_encoded:
  assumes "c < 0x110000" and "c < 0xD800 \<or> 0xE000 \<le> c"
  shows "utf8_stringify (utf8_of_code_point c @ rest) =
         map_option ((@) (utf16_of_code_point c)) (utf8_stringify rest)"
proof -
  from decode_at_encoded [OF assms, of rest] obtain b bs where
    "utf8_of_code_point c = b # bs" "decode_at b (bs @ rest) = Some (c, rest)" by blast
  then show ?thesis by simp
qed

lemma code_point_at_units:
  assumes "code_point_at u us = Some (c, rest)"
  shows "u # us = utf16_of_code_point c @ rest \<and> c < 0x110000 \<and> (c < 0xD800 \<or> 0xE000 \<le> c)"
proof (cases "unat u < 0xD800 \<or> 0xE000 \<le> unat u")
  case True
  then have "c = unat u" "rest = us"
    using assms by (auto simp: code_point_at_def Let_def)
  then show ?thesis
    using True unit_bound [of u] by (auto simp: utf16_of_code_point_def)
next
  case False
  then obtain v where us: "us = v # rest" and v: "0xDC00 \<le> unat v" "unat v < 0xE000"
    and c: "c = 0x10000 + (unat u - 0xD800) * 1024 + (unat v - 0xDC00)"
    and u: "0xD800 \<le> unat u" "unat u < 0xDC00"
    using assms by (auto simp: code_point_at_def Let_def split: if_splits list.splits)
  define h l where "h = unat u - 0xD800" and "l = unat v - 0xDC00"
  have hl: "unat u = 0xD800 + h" "unat v = 0xDC00 + l" "h < 1024" "l < 1024"
    using u v by (simp_all add: h_def l_def)
  have c': "c = 0x10000 + (h * 1024 + l)"
    by (simp add: c h_def l_def)
  have "(c - 0x10000) div 1024 = h" "(c - 0x10000) mod 1024 = l"
    using hl(3,4) by (simp_all add: c')
  then have "utf16_of_code_point c = [of_nat (unat u), of_nat (unat v)]"
    by (simp add: utf16_of_code_point_def c' hl(1,2))
  moreover have "c < 0x110000" using hl(3,4) by (simp add: c')
  ultimately show ?thesis
    by (simp add: us c')
qed

lemma utf8_round_trip: "utf8_parse s = Some bs \<Longrightarrow> utf8_stringify bs = Some s"
proof (induction s arbitrary: bs rule: utf8_parse.induct)
  case 1
  then show ?case by simp
next
  case (2 u us)
  from "2.prems" obtain c rest bs' where
    cp: "code_point_at u us = Some (c, rest)" and rest: "utf8_parse rest = Some bs'"
    and bs: "bs = utf8_of_code_point c @ bs'"
    by (auto split: option.splits)
  from code_point_at_units [OF cp] have
    units: "u # us = utf16_of_code_point c @ rest" and ok: "c < 0x110000" "c < 0xD800 \<or> 0xE000 \<le> c"
    by simp_all
  have "utf8_stringify bs' = Some rest" using "2.IH" cp rest by simp
  then show ?case
    by (simp only: bs utf8_stringify_encoded [OF ok] units option.map)
qed

lemma well_formed_parses: "well_formed s \<longleftrightarrow> utf8_parse s \<noteq> None"
  by (induction s rule: well_formed.induct) (auto simp: code_point_at_def Let_def)

lemma demo_core_round_trip: "unseal demo_core key (seal demo_core key salt bytes) = Some bytes"
proof -
  have "of_nat (unat (of_nat (unat b) :: 16 word)) = b" for b :: byte
  proof -
    have "unat b < 256" using unsigned_less [of b, where ?'a = nat] by simp
    then have "unat (of_nat (unat b) :: 16 word) = unat b" by (intro unat_unit) simp
    then show ?thesis by simp
  qed
  then show ?thesis by (simp add: demo_core_def comp_def)
qed

text \<open>
  C4, amended. With a sealing that \<open>unseal\<close> undoes under every 8-byte salt, for a key and a
  plaintext that are well formed strings \<^verbatim>\<open>encrypt\<close> returns a ciphertext, and \<^verbatim>\<open>decrypt\<close> of
  it under the same key returns exactly the plaintext when it is not empty, and throws when
  it is empty. For a key or a plaintext with an unpaired surrogate \<^verbatim>\<open>encrypt\<close> throws.
\<close>

theorem well_formed_round_trip:
  assumes "\<forall>key salt bytes. length salt = 8 \<longrightarrow>
             unseal core key (seal core key salt bytes) = Some bytes"
    and "length salt = 8"
  shows "(well_formed K \<and> well_formed P \<longrightarrow>
            (\<exists>C. encrypt (cryptojs_encrypt core salt) K P = Inr C \<and>
                 decrypt (cryptojs_decrypt core) K C =
                   (if P = [] then Inl FailedToDecrypt else Inr P))) \<and>
         (\<not> (well_formed K \<and> well_formed P) \<longrightarrow>
            encrypt (cryptojs_encrypt core salt) K P = Inl FailedToEncrypt)"
proof (intro conjI impI)
  assume "well_formed K \<and> well_formed P"
  then obtain key bytes where k: "utf8_parse K = Some key" and p: "utf8_parse P = Some bytes"
    by (auto simp: well_formed_parses)
  have enc: "encrypt (cryptojs_encrypt core salt) K P = Inr (seal core key salt bytes)"
    by (simp add: encrypt_def cryptojs_encrypt_def k p)
  have "unseal core key (seal core key salt bytes) = Some bytes"
    using assms by blast
  then have "cryptojs_decrypt core (seal core key salt bytes) K = utf8_stringify bytes"
    by (simp add: cryptojs_decrypt_def k)
  also have "\<dots> = Some P" using p by (rule utf8_round_trip)
  finally have "decrypt (cryptojs_decrypt core) K (seal core key salt bytes) =
      (if P = [] then Inl FailedToDecrypt else Inr P)"
    by (simp add: decrypt_def)
  with enc show "\<exists>C. encrypt (cryptojs_encrypt core salt) K P = Inr C \<and>
      decrypt (cryptojs_decrypt core) K C = (if P = [] then Inl FailedToDecrypt else Inr P)"
    by blast
next
  assume "\<not> (well_formed K \<and> well_formed P)"
  then have "utf8_parse K = None \<or> utf8_parse P = None"
    by (auto simp: well_formed_parses)
  then show "encrypt (cryptojs_encrypt core salt) K P = Inl FailedToEncrypt"
    by (auto simp: encrypt_def cryptojs_encrypt_def split: option.splits)
qed

text \<open>
  The key \<open>k\<close> with three plaintexts: an \<open>h\<close>, an \<open>e\<close> with acute accent and the pair of
  surrogates of one emoji; the empty string; one high surrogate alone.
\<close>

theorem well_formed_round_trip_witness:
  "(\<exists>C. encrypt (cryptojs_encrypt demo_core (replicate 8 7)) [0x6B] [0x68, 0xE9, 0xD83D, 0xDE00] =
          Inr C \<and>
        decrypt (cryptojs_decrypt demo_core) [0x6B] C = Inr [0x68, 0xE9, 0xD83D, 0xDE00]) \<and>
   (\<exists>C. encrypt (cryptojs_encrypt demo_core (replicate 8 7)) [0x6B] [] = Inr C \<and>
        decrypt (cryptojs_decrypt demo_core) [0x6B] C = Inl FailedToDecrypt) \<and>
   encrypt (cryptojs_encrypt demo_core (replicate 8 7)) [0x6B] [0xD800] = Inl FailedToEncrypt"
proof -
  have core: "\<forall>key salt bytes. length salt = 8 \<longrightarrow>
      unseal demo_core key (seal demo_core key salt bytes) = Some bytes"
    by (simp add: demo_core_round_trip)
  have salt: "length (replicate 8 (7::byte)) = 8" by simp
  have wf: "well_formed [0x6B]" "well_formed [0x68, 0xE9, 0xD83D, 0xDE00]" "well_formed []"
    "\<not> well_formed [0xD800]"
    by simp_all
  show ?thesis
    using well_formed_round_trip [OF core salt, of "[0x6B]" "[0x68, 0xE9, 0xD83D, 0xDE00]"]
      well_formed_round_trip [OF core salt, of "[0x6B]" "[]"]
      well_formed_round_trip [OF core salt, of "[0x6B]" "[0xD800]"] wf
    by simp
qed

section \<open>Item updates\<close>

lemmas item_defs = create_item_def update_item_def update_items_def set_columns_def
  insert_item_def insert_version_def item_row_ok_def validTypes_def max_version_def
  varchar_def has_nul_def max_integer_def list_versions_def falsy_str_def falsy_id_def Let_def

lemma update_items_rows:
  assumes "update_items now req iid uid d = Some (rows, d1)"
  shows "\<exists>stored. same_supply req stored \<and>
     d1 = d\<lparr>items := map (\<lambda>r. if i_id r = iid \<and> i_user_id r = uid
                                then set_columns now stored r else r) (items d)\<rparr>"
proof (cases "[r \<leftarrow> items d. i_id r = iid \<and> i_user_id r = uid] = []")
  case True
  then have "map (\<lambda>r. if i_id r = iid \<and> i_user_id r = uid then set_columns now req r else r)
      (items d) = items d"
    by (intro map_idI) (auto simp: filter_empty_conv)
  moreover have "d1 = d" using assms True by (simp add: update_items_def Let_def split: if_splits)
  ultimately show ?thesis
    by (intro exI [of _ req]) (simp add: same_supply_def)
next
  case False
  then obtain name language where
    nl: "varchar_null 255 (ur_name req) = Some name" "varchar_null 50 (ur_language req) = Some language"
    and d1: "d1 = d\<lparr>items := map (\<lambda>r. if i_id r = iid \<and> i_user_id r = uid
         then set_columns now (req\<lparr>ur_name := name, ur_language := language\<rparr>) r else r) (items d)\<rparr>"
    using assms by (auto simp: update_items_def Let_def split: option.splits if_splits)
  have "same_supply req (req\<lparr>ur_name := name, ur_language := language\<rparr>)"
    using nl by (auto simp: same_supply_def)
  then show ?thesis using d1 by blast
qed

lemma update_item_items:
  "items (snd (update_item uid now iid req d)) = items d \<or>
   (\<exists>stored. same_supply req stored \<and>
      items (snd (update_item uid now iid req d)) =
        map (\<lambda>r. if i_id r = iid \<and> i_user_id r = uid then set_columns now stored r else r)
          (items d))"
proof (cases "update_items now req iid uid d")
  case None
  then show ?thesis
    by (auto simp: update_item_def Let_def split: list.splits)
next
  case (Some a)
  obtain rows d1 where a: "a = (rows, d1)" by (cases a)
  from update_items_rows [OF Some [unfolded a]] obtain stored where
    st: "same_supply req stored"
    "d1 = d\<lparr>items := map (\<lambda>r. if i_id r = iid \<and> i_user_id r = uid
                                then set_columns now stored r else r) (items d)\<rparr>"
    by blast
  have "items (snd (update_item uid now iid req d)) = items d \<or>
        items (snd (update_item uid now iid req d)) = items d1"
    using Some a
    by (auto simp: update_item_def insert_version_def Let_def
        split: list.splits sum.splits if_splits)
  then show ?thesis using st by auto
qed

lemma set_columns_frame:
  "set_columns now req old
     \<lparr>i_name := i_name old, i_encrypted_content := i_encrypted_content old,
      i_folder_id := i_folder_id old, i_language := i_language old, i_tags := i_tags old,
      i_updated_at := i_updated_at old\<rparr> = old"
  by (simp add: set_columns_def)

lemma set_columns_unsupplied:
  assumes "same_supply req stored"
  shows "(ur_name req = None \<longrightarrow> i_name (set_columns now stored r) = i_name r) \<and>
    (ur_encryptedContent req = None \<longrightarrow>
       i_encrypted_content (set_columns now stored r) = i_encrypted_content r) \<and>
    (ur_folderId req = None \<longrightarrow> i_folder_id (set_columns now stored r) = i_folder_id r) \<and>
    (ur_language req = None \<longrightarrow> i_language (set_columns now stored r) = i_language r) \<and>
    (ur_tags req = None \<longrightarrow> i_tags (set_columns now stored r) = i_tags r)"
  using assms by (auto simp: same_supply_def set_columns_def)

text \<open>
  What one update does to the versions table: it appends one row, numbered one above the
  highest version of the item, when the request carries a non-empty content that differs
  from the stored one, and nothing otherwise.
\<close>

lemma update_item_versions:
  assumes "[i \<leftarrow> items d. i_id i = iid \<and> i_user_id i = uid] = itemCheck # others"
    and "update_item uid now iid req d = (Done out, d')"
  shows "item_versions d' =
     (if truthy_str (ur_encryptedContent req) \<and>
         ur_encryptedContent req \<noteq> i_encrypted_content itemCheck
      then item_versions d @
           [\<lparr>v_id = item_versions_id_seq d + 1, v_item_id = iid,
             v_encrypted_content = ur_encryptedContent req,
             v_version_number = max_version d iid + 1, v_created_at = now\<rparr>]
      else item_versions d)"
proof (cases "update_items now req iid uid d")
  case None
  then show ?thesis using assms by (auto simp: update_item_def Let_def split: if_splits)
next
  case (Some a)
  obtain rows d1 where a: "a = (rows, d1)" by (cases a)
  from update_items_rows [OF Some [unfolded a]]
  have "item_versions d1 = item_versions d" "item_versions_id_seq d1 = item_versions_id_seq d"
    by auto
  then show ?thesis
    using assms Some a
    by (auto simp: update_item_def insert_version_def Let_def split: if_splits sum.splits)
qed

lemma fold_max_upt: "fold max [1..<Suc k] 0 = k"
  by (induction k) simp_all

lemma max_version_numbered:
  assumes "version_numbers d iid = [1..<Suc k]"
  shows "max_version d iid = k"
proof -
  have "max_version d iid = fold max (version_numbers d iid) 0"
    by (simp add: max_version_def version_numbers_def)
  then show ?thesis by (simp only: assms fold_max_upt)
qed

lemma update_item_keeps_item:
  assumes "[i \<leftarrow> items d. i_id i = iid \<and> i_user_id i = uid] \<noteq> []"
  shows "[i \<leftarrow> items (snd (update_item uid' now iid' req d)). i_id i = iid \<and> i_user_id i = uid] \<noteq> []"
proof -
  have keep: "i_id (set_columns now' stored r) = i_id r \<and> i_user_id (set_columns now' stored r) = i_user_id r"
    for now' stored r
    by (simp add: set_columns_def)
  from assms obtain r where r: "r \<in> set (items d)" "i_id r = iid" "i_user_id r = uid"
    by (auto simp: filter_empty_conv)
  from update_item_items [of uid' now iid' req d] show ?thesis
  proof
    assume "items (snd (update_item uid' now iid' req d)) = items d"
    then show ?thesis using assms by simp
  next
    assume "\<exists>stored. same_supply req stored \<and>
      items (snd (update_item uid' now iid' req d)) =
        map (\<lambda>r. if i_id r = iid' \<and> i_user_id r = uid' then set_columns now stored r else r)
          (items d)"
    then obtain stored where it: "items (snd (update_item uid' now iid' req d)) =
        map (\<lambda>r. if i_id r = iid' \<and> i_user_id r = uid' then set_columns now stored r else r)
          (items d)" by blast
    let ?r = "if i_id r = iid' \<and> i_user_id r = uid' then set_columns now stored r else r"
    have "?r \<in> set (items (snd (update_item uid' now iid' req d)))"
      using r(1) by (simp add: it)
    moreover have "i_id ?r = iid \<and> i_user_id ?r = uid"
      using r keep by simp
    ultimately show ?thesis by (auto simp: filter_empty_conv)
  qed
qed

lemma update_step_numbers:
  assumes "[i \<leftarrow> items d. i_id i = iid \<and> i_user_id i = uid] = itemCheck # others"
    and "truthy_str (ur_encryptedContent req)"
    and "ur_encryptedContent req \<noteq> i_encrypted_content itemCheck"
    and "update_item uid now iid req d = (Done out, d')"
    and "version_numbers d iid = [1..<Suc k]"
  shows "version_numbers d' iid = [1..<Suc (Suc k)]"
proof -
  have "item_versions d' = item_versions d @
           [\<lparr>v_id = item_versions_id_seq d + 1, v_item_id = iid,
             v_encrypted_content = ur_encryptedContent req,
             v_version_number = k + 1, v_created_at = now\<rparr>]"
    using update_item_versions [OF assms(1,4)] assms(2,3) max_version_numbered [OF assms(5)]
    by simp
  then have "version_numbers d' iid = version_numbers d iid @ [Suc k]"
    by (simp add: version_numbers_def)
  then show ?thesis by (simp add: assms(5))
qed

lemma changing_updates_numbers:
  "changing_updates uid iid us d \<Longrightarrow> version_numbers d iid = [1..<Suc k] \<Longrightarrow>
   [i \<leftarrow> items d. i_id i = iid \<and> i_user_id i = uid] \<noteq> [] \<Longrightarrow>
   version_numbers (run_updates uid iid us d) iid = [1..<Suc (k + length us)] \<and>
   [i \<leftarrow> items (run_updates uid iid us d). i_id i = iid \<and> i_user_id i = uid] \<noteq> []"
proof (induction us arbitrary: d k)
  case Nil
  then show ?case by simp
next
  case (Cons u us)
  obtain now req where u: "u = (now, req)" by (cases u)
  from Cons.prems(1) obtain itemCheck others where
    hit: "[i \<leftarrow> items d. i_id i = iid \<and> i_user_id i = uid] = itemCheck # others"
    by (auto simp: u split: list.splits)
  obtain ans d' where upd: "update_item uid now iid req d = (ans, d')"
    by (cases "update_item uid now iid req d")
  from Cons.prems(1) hit upd obtain out where
    ok: "truthy_str (ur_encryptedContent req)"
      "ur_encryptedContent req \<noteq> i_encrypted_content itemCheck"
      "ans = Done out" "changing_updates uid iid us d'"
    by (auto simp: u split: reply.splits)
  have num: "version_numbers d' iid = [1..<Suc (Suc k)]"
    using update_step_numbers [OF hit ok(1,2) upd [unfolded ok(3)] Cons.prems(2)] .
  have ex: "[i \<leftarrow> items d'. i_id i = iid \<and> i_user_id i = uid] \<noteq> []"
    using update_item_keeps_item [where d = d and iid = iid and uid = uid and uid' = uid
        and now = now and iid' = iid and req = req] hit upd by simp
  from Cons.IH [OF ok(4) num ex] show ?case by (simp add: u upd)
qed

lemma concat_map_if:
  "concat (map (\<lambda>x. if P x then [f x] else []) xs) = map f (filter P xs)"
  by (induction xs) simp_all

lemma version_numbers_map:
  "version_numbers d iid = map v_version_number [v \<leftarrow> item_versions d. v_item_id v = iid]"
  by (simp add: version_numbers_def concat_map_if)

lemma versions_after_changing_updates:
  assumes "[i \<leftarrow> items d. i_id i = iid \<and> i_user_id i = uid] \<noteq> []"
    and "version_numbers d iid = [1]"
    and "changing_updates uid iid us d"
  shows "\<exists>rows. list_versions uid iid (run_updates uid iid us d) = Done rows \<and>
           map v_version_number rows = rev [1..<length us + 2]"
proof -
  let ?d = "run_updates uid iid us d"
  let ?vs = "[v \<leftarrow> item_versions ?d. v_item_id v = iid]"
  have "version_numbers d iid = [1..<Suc 1]" using assms(2) by simp
  from changing_updates_numbers [OF assms(3) this assms(1)]
  have num: "map v_version_number ?vs = [1..<length us + 2]"
    and ex: "[i \<leftarrow> items ?d. i_id i = iid \<and> i_user_id i = uid] \<noteq> []"
    by (simp_all add: version_numbers_map)
  have "sorted (map v_version_number ?vs)" by (simp only: num sorted_upt)
  then have "sort_key v_version_number ?vs = ?vs" by (rule sort_key_id_if_sorted)
  then have "list_versions uid iid ?d = Done (rev ?vs)"
    using ex by (simp add: list_versions_def)
  moreover have "map v_version_number (rev ?vs) = rev (map v_version_number ?vs)"
    by (rule rev_map [symmetric])
  then have "map v_version_number (rev ?vs) = rev [1..<length us + 2]"
    by (simp only: num)
  ultimately show ?thesis by blast
qed

lemma create_item_first_version:
  assumes "create_item uid now req d = (Done row, d')"
    and "\<forall>v \<in> set (item_versions d). v_item_id v \<le> items_id_seq d"
  shows "version_numbers d' (i_id row) = [1] \<and>
         [i \<leftarrow> items d'. i_id i = i_id row \<and> i_user_id i = uid] \<noteq> []"
proof -
  from assms(1) obtain d1 where
    ins: "insert_item now (coalesce (cr_name req) []) (coalesce (cr_type req) [])
            (cr_encryptedContent req) (coalesce (cr_folderId req) 0) uid (cr_language req)
            (coalesce (cr_tags req) []) d = Inr (row, d1)"
    and ver: "insert_version now (i_id row) (cr_encryptedContent req) 1 d1 = Inr d'"
    by (auto simp: create_item_def Let_def split: if_splits sum.splits)
  from ins have row: "i_id row = items_id_seq d + 1" "i_user_id row = uid"
    and d1: "items d1 = items d @ [row]" "item_versions d1 = item_versions d"
    by (auto simp: insert_item_def Let_def split: option.splits if_splits)
  from ver have d': "items d' = items d1"
    "item_versions d' = item_versions d1 @
       [\<lparr>v_id = item_versions_id_seq d1 + 1, v_item_id = i_id row,
         v_encrypted_content = cr_encryptedContent req, v_version_number = 1,
         v_created_at = now\<rparr>]"
    by (auto simp: insert_version_def Let_def split: if_splits)
  have "[v \<leftarrow> item_versions d. v_item_id v = i_id row] = []"
    using assms(2) row(1) by (auto simp: filter_empty_conv)
  then have "version_numbers d' (i_id row) = [1]"
    by (simp add: version_numbers_map d' d1)
  moreover have "row \<in> set (items d')"
    by (simp add: d' d1)
  ultimately show ?thesis using row(2) by (auto simp: filter_empty_conv)
qed

text \<open>
  Version monotonicity for truthy contents: an item created by \<^verbatim>\<open>POST /items\<close> and then
  updated \<open>N\<close> times, each update carrying a non-empty content that differs from the stored
  one, lists \<open>N + 1\<close> versions numbered \<open>N + 1\<close> down to 1. The versions table refers to no
  item id that the sequence has yet to give out.
\<close>

lemma version_monotonicity_truthy:
  assumes "create_item uid now req d = (Done row, d1)"
    and "\<forall>v \<in> set (item_versions d). v_item_id v \<le> items_id_seq d"
    and "changing_updates uid (i_id row) us d1"
  shows "\<exists>rows. list_versions uid (i_id row) (run_updates uid (i_id row) us d1) = Done rows \<and>
           map v_version_number rows = rev [1..<length us + 2]"
  using create_item_first_version [OF assms(1,2)] assms(3)
  by (intro versions_after_changing_updates) simp_all

text \<open>
  C5. The versions are as the claim has them when every update carries a non-empty content
  (\<open>version_monotonicity_truthy\<close>), and an update with the stored content appends nothing
  (\<open>update_item_versions\<close>). With the empty string they are not: the item \<open>N\<close> is created in
  \<open>store1\<close> with content \<open>c1\<close> (it gets id 2 and version 1) and updated once with the empty
  string as content. The stored content becomes the empty string, which differs from \<open>c1\<close>,
  and the versions of the item are still the one record of its creation: the update appended
  none.
\<close>

theorem blank_content_update_adds_no_version:
  "\<exists>row d1 out d2.
     create_item 1 5 newN store1 = (Done row, d1) \<and> i_id row = 2 \<and>
     i_encrypted_content row = Some ''c1'' \<and>
     update_item 1 6 2 blankContent d1 = (Done out, d2) \<and>
     map i_encrypted_content [i \<leftarrow> items d2. i_id i = 2] = [Some []] \<and>
     list_versions 1 2 d2 =
       Done [\<lparr>v_id = 2, v_item_id = 2, v_encrypted_content = Some ''c1'',
               v_version_number = 1, v_created_at = 5\<rparr>]"
  by (simp add: item_defs newN_def blankContent_def store1_defs)

text \<open>
  C10. Whatever the update answers, the items table keeps its length; a row that is not the
  caller's item of the given id is as it was; in every row only name, encrypted_content,
  folder_id, language, tags and updated_at can differ from before; and each of the first five
  is as it was when the request does not supply it.
\<close>

theorem update_item_frame:
  assumes "update_item uid now iid req d = (answer, d')"
  shows "length (items d') = length (items d) \<and>
    (\<forall>k < length (items d).
       (\<not> (i_id (items d ! k) = iid \<and> i_user_id (items d ! k) = uid) \<longrightarrow>
          items d' ! k = items d ! k) \<and>
       (items d' ! k)
         \<lparr>i_name := i_name (items d ! k),
          i_encrypted_content := i_encrypted_content (items d ! k),
          i_folder_id := i_folder_id (items d ! k), i_language := i_language (items d ! k),
          i_tags := i_tags (items d ! k), i_updated_at := i_updated_at (items d ! k)\<rparr> =
         items d ! k \<and>
       (ur_name req = None \<longrightarrow> i_name (items d' ! k) = i_name (items d ! k)) \<and>
       (ur_encryptedContent req = None \<longrightarrow>
          i_encrypted_content (items d' ! k) = i_encrypted_content (items d ! k)) \<and>
       (ur_folderId req = None \<longrightarrow> i_folder_id (items d' ! k) = i_folder_id (items d ! k)) \<and>
       (ur_language req = None \<longrightarrow> i_language (items d' ! k) = i_language (items d ! k)) \<and>
       (ur_tags req = None \<longrightarrow> i_tags (items d' ! k) = i_tags (items d ! k)))"
proof -
  have d': "d' = snd (update_item uid now iid req d)" using assms by simp
  from update_item_items [of uid now iid req d] show ?thesis
  proof
    assume "items (snd (update_item uid now iid req d)) = items d"
    then show ?thesis using d' by simp
  next
    assume "\<exists>stored. same_supply req stored \<and>
      items (snd (update_item uid now iid req d)) =
        map (\<lambda>r. if i_id r = iid \<and> i_user_id r = uid then set_columns now stored r else r)
          (items d)"
    then obtain stored where st: "same_supply req stored"
      and it: "items d' = map (\<lambda>r. if i_id r = iid \<and> i_user_id r = uid
                 then set_columns now stored r else r) (items d)"
      using d' by auto
    show ?thesis
      using set_columns_unsupplied [OF st, of now] by (simp add: it set_columns_frame)
  qed
qed

theorem update_item_frame_witness:
  "update_item 1 6 1 renameA store1 =
     (Done (Some (itemA\<lparr>i_name := ''A2'', i_updated_at := 6\<rparr>)),
      store1\<lparr>items := [itemA\<lparr>i_name := ''A2'', i_updated_at := 6\<rparr>]\<rparr>) \<and>
   i_encrypted_content (items (snd (update_item 1 6 1 renameA store1)) ! 0) = Some ''c1'' \<and>
   i_folder_id (items (snd (update_item 1 6 1 renameA store1)) ! 0) = 1 \<and>
   i_language (items (snd (update_item 1 6 1 renameA store1)) ! 0) = None \<and>
   i_tags (items (snd (update_item 1 6 1 renameA store1)) ! 0) = Some []"
proof -
  have run: "update_item 1 6 1 renameA store1 =
     (Done (Some (itemA\<lparr>i_name := ''A2'', i_updated_at := 6\<rparr>)),
      store1\<lparr>items := [itemA\<lparr>i_name := ''A2'', i_updated_at := 6\<rparr>]\<rparr>)"
    by (simp add: item_defs renameA_def store1_defs)
  have req: "ur_encryptedContent renameA = None" "ur_folderId renameA = None"
    "ur_language renameA = None" "ur_tags renameA = None"
    by (simp_all add: renameA_def)
  have old: "items store1 ! 0 = itemA" "length (items store1) = 1"
    by (simp_all add: store1_def)
  have "i_encrypted_content itemA = Some ''c1''" "i_folder_id itemA = 1"
    "i_language itemA = None" "i_tags itemA = Some []"
    by (simp_all add: itemA_def)
  then show ?thesis
    using update_item_frame [OF run] req old run by simp
qed

end
